theory Spec2Isabelle
  imports Complex_Main "HOL-Library.Monad_Syntax"
begin

section \<open>Strings and characters\<close>

text \<open>
  The detector works on JavaScript strings. A string is modelled as a \<^typ>\<open>string\<close> whose
  characters are the code units below 256; every character that occurs in a pattern of
  \<^verbatim>\<open>detector.js\<close> is ASCII. The functions below work on the numeric code of a character.
\<close>

abbreviation dq :: char where "dq \<equiv> CHR 0x22"
abbreviation sq :: char where "sq \<equiv> CHR 0x27"

text \<open>White space as \<^verbatim>\<open>\s\<close> and \<^verbatim>\<open>String.prototype.trim\<close> see it: TAB, LF, VT, FF, CR, SP, NBSP.\<close>

definition isSpace :: "nat \<Rightarrow> bool" where
  "isSpace k = (k = 9 \<or> k = 10 \<or> k = 11 \<or> k = 12 \<or> k = 13 \<or> k = 32 \<or> k = 160)"

definition isUpper :: "nat \<Rightarrow> bool" where
  "isUpper k = ((65 \<le> k \<and> k \<le> 90) \<or> (192 \<le> k \<and> k \<le> 222 \<and> k \<noteq> 215))"

definition isLower :: "nat \<Rightarrow> bool" where
  "isLower k = ((97 \<le> k \<and> k \<le> 122) \<or> (224 \<le> k \<and> k \<le> 254 \<and> k \<noteq> 247))"

definition upperCode :: "nat \<Rightarrow> nat" where
  "upperCode k = (if isLower k then k - 32 else k)"

definition lowerCode :: "nat \<Rightarrow> nat" where
  "lowerCode k = (if isUpper k then k + 32 else k)"

text \<open>\<^verbatim>\<open>String.prototype.toLowerCase\<close> and \<^verbatim>\<open>toUpperCase\<close> (the latter only to state
  properties about letter case; the detector never calls it).\<close>

definition lowerChar :: "char \<Rightarrow> char" where
  "lowerChar c = (if isUpper (of_char c) then char_of (of_char c + 32 :: nat) else c)"

definition upperChar :: "char \<Rightarrow> char" where
  "upperChar c = (if isLower (of_char c) then char_of (of_char c - 32 :: nat) else c)"

definition toLowerCase :: "string \<Rightarrow> string" where
  "toLowerCase s = map lowerChar s"

definition toUpperCase :: "string \<Rightarrow> string" where
  "toUpperCase s = map upperChar s"

definition trim :: "string \<Rightarrow> string" where
  "trim s = rev (dropWhile (\<lambda>c. isSpace (of_char c)) (rev (dropWhile (\<lambda>c. isSpace (of_char c)) s)))"

text \<open>\<^verbatim>\<open>s.startsWith(t)\<close> and \<^verbatim>\<open>s.includes(t)\<close>.\<close>

fun startsWith :: "string \<Rightarrow> string \<Rightarrow> bool" where
  "startsWith s [] = True"
| "startsWith [] (b # bs) = False"
| "startsWith (a # as) (b # bs) = (a = b \<and> startsWith as bs)"

fun strIncludes :: "string \<Rightarrow> string \<Rightarrow> bool" where
  "strIncludes [] t = startsWith [] t"
| "strIncludes (a # as) t = (startsWith (a # as) t \<or> strIncludes as t)"

section \<open>Regular expressions\<close>

text \<open>
  The patterns of \<^verbatim>\<open>detector.js\<close> use literals, character classes, quantified
  character classes (greedy and lazy), \<^verbatim>\<open>^\<close>, \<^verbatim>\<open>$\<close>, alternation, sequencing and at most one
  capture group. The matcher is a backtracking matcher as ECMAScript specifies it: it
  returns the ways a pattern can match at a position, in the order in which backtracking
  tries them, so the head of the list is the match the engine reports. The flag \<open>ci\<close> is
  the \<^verbatim>\<open>i\<close> flag: two characters are the same when their upper-case forms are.
\<close>

datatype catom = Chr char | Rng char char | Space | NonSpace | Digit

fun atomHas :: "catom \<Rightarrow> nat \<Rightarrow> bool" where
  "atomHas (Chr a) k = (of_char a = k)"
| "atomHas (Rng lo hi) k = (of_char lo \<le> k \<and> k \<le> of_char hi)"
| "atomHas Space k = isSpace k"
| "atomHas NonSpace k = (\<not> isSpace k)"
| "atomHas Digit k = (48 \<le> k \<and> k \<le> 57)"

definition atomMatch :: "bool \<Rightarrow> catom \<Rightarrow> char \<Rightarrow> bool" where
  "atomMatch ci a c = (let k = of_char c in
     if ci then atomHas a k \<or> atomHas a (upperCode k) \<or> atomHas a (lowerCode k)
     else atomHas a k)"

datatype cclass = OneOf "catom list" | NoneOf "catom list"

fun classMatch :: "bool \<Rightarrow> cclass \<Rightarrow> char \<Rightarrow> bool" where
  "classMatch ci (OneOf as) c = list_ex (\<lambda>a. atomMatch ci a c) as"
| "classMatch ci (NoneOf as) c = (\<not> list_ex (\<lambda>a. atomMatch ci a c) as)"

text \<open>\<open>Rep cl lo hi greedy\<close> is the class \<open>cl\<close> under the quantifier \<^verbatim>\<open>{lo,hi}\<close>
  (\<open>hi = None\<close>: unbounded), lazy when \<open>greedy\<close> is false.\<close>

datatype regex = Lit string | Cls cclass | Rep cclass nat "nat option" bool
  | Bol | Eol | Seq regex regex | Alt regex regex

abbreviation star :: "cclass \<Rightarrow> regex" where "star cl \<equiv> Rep cl 0 None True"
abbreviation plus :: "cclass \<Rightarrow> regex" where "plus cl \<equiv> Rep cl 1 None True"
abbreviation lazyStar :: "cclass \<Rightarrow> regex" where "lazyStar cl \<equiv> Rep cl 0 None False"

fun seqs :: "regex list \<Rightarrow> regex" where
  "seqs [] = Lit []"
| "seqs [r] = r"
| "seqs (r # rs) = Seq r (seqs rs)"

fun alts :: "regex list \<Rightarrow> regex" where
  "alts [] = Lit []"
| "alts [r] = r"
| "alts (r # rs) = Alt r (alts rs)"

text \<open>A matcher state is the index reached and the input that remains from there.\<close>

type_synonym mstate = "nat \<times> string"

fun litMatch :: "bool \<Rightarrow> string \<Rightarrow> mstate \<Rightarrow> mstate list" where
  "litMatch ci [] st = [st]"
| "litMatch ci (a # as) (n, []) = []"
| "litMatch ci (a # as) (n, c # cs) =
     (if atomMatch ci (Chr a) c then litMatch ci as (Suc n, cs) else [])"

fun repMatch :: "bool \<Rightarrow> cclass \<Rightarrow> nat \<Rightarrow> nat option \<Rightarrow> bool \<Rightarrow> mstate \<Rightarrow> mstate list" where
  "repMatch ci cl lo hi greedy (n, []) = (if hi = Some 0 \<or> lo = 0 then [(n, [])] else [])"
| "repMatch ci cl lo hi greedy (n, c # cs) =
     (if hi = Some 0 then [(n, c # cs)]
      else let more = (if classMatch ci cl c
                       then repMatch ci cl (lo - 1) (map_option (\<lambda>h. h - 1) hi) greedy (Suc n, cs)
                       else []);
               stop = (if lo = 0 then [(n, c # cs)] else [])
           in if greedy then more @ stop else stop @ more)"

fun matches :: "bool \<Rightarrow> regex \<Rightarrow> mstate \<Rightarrow> mstate list" where
  "matches ci (Lit l) st = litMatch ci l st"
| "matches ci (Cls cl) (n, []) = []"
| "matches ci (Cls cl) (n, c # cs) = (if classMatch ci cl c then [(Suc n, cs)] else [])"
| "matches ci (Rep cl lo hi greedy) st = repMatch ci cl lo hi greedy st"
| "matches ci Bol (n, s) = (if n = 0 then [(n, s)] else [])"
| "matches ci Eol (n, s) = (if s = [] then [(n, s)] else [])"
| "matches ci (Seq r1 r2) st = concat (map (matches ci r2) (matches ci r1 st))"
| "matches ci (Alt r1 r2) st = matches ci r1 st @ matches ci r2 st"

text \<open>\<open>Group pre g post\<close> is the pattern \<^verbatim>\<open>pre(g)post\<close>; a match is reported as the index
  after it and the text of the capture group.\<close>

datatype gregex = Group regex regex regex

fun matchAt :: "bool \<Rightarrow> gregex \<Rightarrow> mstate \<Rightarrow> (nat \<times> string) list" where
  "matchAt ci (Group pre g post) st =
     concat (map (\<lambda>(n1, s1).
       concat (map (\<lambda>(n2, s2).
         map (\<lambda>(e, s3). (e, take (n2 - n1) s1)) (matches ci post (n2, s2)))
       (matches ci g (n1, s1))))
     (matches ci pre st))"

text \<open>The engine tries the start positions from left to right.\<close>

fun search :: "bool \<Rightarrow> gregex \<Rightarrow> mstate \<Rightarrow> (nat \<times> string) option" where
  "search ci p (k, []) = (case matchAt ci p (k, []) of [] \<Rightarrow> None | r # _ \<Rightarrow> Some r)"
| "search ci p (k, c # cs) =
     (case matchAt ci p (k, c # cs) of [] \<Rightarrow> search ci p (Suc k, cs) | r # _ \<Rightarrow> Some r)"

fun testFrom :: "bool \<Rightarrow> regex \<Rightarrow> mstate \<Rightarrow> bool" where
  "testFrom ci r (k, []) = (matches ci r (k, []) \<noteq> [])"
| "testFrom ci r (k, c # cs) = (matches ci r (k, c # cs) \<noteq> [] \<or> testFrom ci r (Suc k, cs))"

text \<open>\<^verbatim>\<open>/r/.test(s)\<close> on a regular expression object that the call has just created
  (\<^verbatim>\<open>lastIndex = 0\<close>, with or without the \<^verbatim>\<open>g\<close> flag), and \<^verbatim>\<open>s.match(/r/)\<close> without \<^verbatim>\<open>g\<close>,
  which yields the capture of the leftmost match.\<close>

definition test :: "bool \<Rightarrow> regex \<Rightarrow> string \<Rightarrow> bool" where
  "test ci r s = testFrom ci r (0, s)"

definition match1 :: "bool \<Rightarrow> gregex \<Rightarrow> string \<Rightarrow> string option" where
  "match1 ci p s = map_option snd (search ci p (0, s))"

subsection \<open>Bounds on matches\<close>

lemma litMatch_bounds:
  "(e, t) \<in> set (litMatch ci l (n, s)) \<Longrightarrow> e = n + length l \<and> e + length t = n + length s"
  by (induction ci l "(n, s)" arbitrary: n s rule: litMatch.induct) (auto split: if_splits)

lemma repMatch_bounds:
  "(e, t) \<in> set (repMatch ci cl lo hi g (n, s)) \<Longrightarrow>
     n + (case hi of None \<Rightarrow> lo | Some h \<Rightarrow> min lo h) \<le> e \<and> e + length t = n + length s"
proof (induction ci cl lo hi g "(n, s)" arbitrary: n s rule: repMatch.induct)
  case (1 ci cl lo hi greedy n)
  then show ?case by (auto split: if_splits option.splits)
next
  case (2 ci cl lo hi greedy n c cs)
  show ?case
  proof (cases "hi = Some 0")
    case True
    with 2(2) show ?thesis by (auto split: option.splits)
  next
    case False
    from 2(2) False consider
      (more) "classMatch ci cl c" "(e, t) \<in> set (repMatch ci cl (lo - 1) (map_option (\<lambda>h. h - 1) hi) greedy (Suc n, cs))"
      | (stop) "lo = 0" "(e, t) = (n, c # cs)"
      by (auto simp: Let_def split: if_splits)
    then show ?thesis
    proof cases
      case more
      from 2(1)[OF False more] show ?thesis by (auto split: option.splits)
    next
      case stop
      then show ?thesis by (auto split: option.splits)
    qed
  qed
qed

text \<open>The least number of characters a match of a pattern consumes.\<close>

fun minLen :: "regex \<Rightarrow> nat" where
  "minLen (Lit l) = length l"
| "minLen (Cls cl) = 1"
| "minLen (Rep cl lo hi g) = (case hi of None \<Rightarrow> lo | Some h \<Rightarrow> min lo h)"
| "minLen Bol = 0"
| "minLen Eol = 0"
| "minLen (Seq r1 r2) = minLen r1 + minLen r2"
| "minLen (Alt r1 r2) = min (minLen r1) (minLen r2)"

lemma matches_bounds:
  "(e, t) \<in> set (matches ci r (n, s)) \<Longrightarrow> n + minLen r \<le> e \<and> e + length t = n + length s"
proof (induction r arbitrary: n s e t)
  case (Lit l)
  then show ?case using litMatch_bounds by fastforce
next
  case (Cls cl)
  then show ?case by (cases s) (auto split: if_splits)
next
  case (Rep cl lo hi g)
  then show ?case using repMatch_bounds[of e t ci cl lo hi g n s] by simp
next
  case (Seq r1 r2)
  from Seq.prems obtain m u where a: "(m, u) \<in> set (matches ci r1 (n, s))"
    and b: "(e, t) \<in> set (matches ci r2 (m, u))" by auto
  from Seq.IH(1)[OF a] Seq.IH(2)[OF b] show ?case by auto
next
  case (Alt r1 r2)
  then show ?case by (fastforce simp: min_def)
qed (auto split: if_splits)


fun minLenG :: "gregex \<Rightarrow> nat" where
  "minLenG (Group pre g post) = minLen pre + minLen g + minLen post"

lemma matchAt_bounds:
  assumes "(e, cap) \<in> set (matchAt ci p (n, s))"
  shows "n + minLenG p \<le> e \<and> e \<le> n + length s"
proof (cases p)
  case (Group pre g post)
  from assms Group obtain n1 s1 n2 s2 s3 where
    a: "(n1, s1) \<in> set (matches ci pre (n, s))" and
    b: "(n2, s2) \<in> set (matches ci g (n1, s1))" and
    c: "(e, s3) \<in> set (matches ci post (n2, s2))"
    by auto
  from matches_bounds[OF a] matches_bounds[OF b] matches_bounds[OF c] Group
  show ?thesis by auto
qed

lemma search_bounds:
  "search ci p (n, s) = Some (e, cap) \<Longrightarrow> n + minLenG p \<le> e \<and> e \<le> n + length s"
proof (induction s arbitrary: n)
  case Nil
  then have "(e, cap) \<in> set (matchAt ci p (n, []))" by (auto split: list.splits)
  from matchAt_bounds[OF this] show ?case by simp
next
  case (Cons c cs)
  show ?case
  proof (cases "matchAt ci p (n, c # cs)")
    case Nil
    with Cons.prems have "search ci p (Suc n, cs) = Some (e, cap)" by simp
    from Cons.IH[OF this] show ?thesis by simp
  next
    case (Cons r rs)
    with Cons.prems have "(e, cap) \<in> set (matchAt ci p (n, c # cs))" by simp
    from matchAt_bounds[OF this] show ?thesis by simp
  qed
qed

text \<open>
  The loop \<^verbatim>\<open>while ((match = pattern.exec(s)) !== null) body\<close> over a pattern with the
  \<^verbatim>\<open>g\<close> flag: \<open>i\<close> is \<^verbatim>\<open>lastIndex\<close>, \<open>acc\<close> the variables the body updates from the
  capture \<^verbatim>\<open>match[1]\<close>. After a match \<^verbatim>\<open>lastIndex\<close> is the index after it; an empty match
  at \<^verbatim>\<open>lastIndex\<close> leaves it unchanged, and the loop never ends: the result is \<open>None\<close>.
\<close>

function execLoop :: "bool \<Rightarrow> gregex \<Rightarrow> string \<Rightarrow> (string \<Rightarrow> 'a \<Rightarrow> 'a) \<Rightarrow> nat \<Rightarrow> 'a \<Rightarrow> 'a option" where
  "execLoop ci p s body i acc =
     (case search ci p (i, drop i s) of
        None \<Rightarrow> Some acc
      | Some (e, cap) \<Rightarrow> if e \<le> i then None else execLoop ci p s body e (body cap acc))"
  by pat_completeness auto
termination
proof (relation "measure (\<lambda>(ci, p, s, body, i, acc). length s - i)")
  show "wf (measure (\<lambda>(ci, p, s, body, i, acc). length s - i))" by simp
next
  fix ci p s and body :: "string \<Rightarrow> 'a \<Rightarrow> 'a" and i acc x2 e cap
  assume a: "search ci p (i, drop i s) = Some x2" "(e, cap) = x2" "\<not> e \<le> i"
  then have "search ci p (i, drop i s) = Some (e, cap)" by simp
  from search_bounds[OF this] a(3) have "i < e" "e \<le> length s" by auto
  then show "((ci, p, s, body, e, body cap acc), (ci, p, s, body, i, acc))
      \<in> measure (\<lambda>(ci, p, s, body, i, acc). length s - i)" by simp
qed

declare execLoop.simps [simp del]

lemma execLoop_total:
  "0 < minLenG p \<Longrightarrow> \<exists>r. execLoop ci p s body i acc = Some r"
proof (induction ci p s body i acc rule: execLoop.induct)
  case (1 ci p s body i acc)
  show ?case
  proof (cases "search ci p (i, drop i s)")
    case None
    then show ?thesis by (simp add: execLoop.simps)
  next
    case (Some x)
    obtain e cap where x: "x = (e, cap)" by (cases x)
    from search_bounds[of ci p i "drop i s" e cap] Some x 1(2) have "\<not> e \<le> i" by simp
    with 1(1)[OF Some x[symmetric] this 1(2)] Some x show ?thesis
      by (subst execLoop.simps) simp
  qed
qed

section \<open>The detectors of \<^verbatim>\<open>detector.js\<close>\<close>

abbreviation quote :: cclass where "quote \<equiv> OneOf [Chr dq, Chr sq]"
abbreviation spaces :: regex where "spaces \<equiv> star (OneOf [Space])"
abbreviation spaces1 :: regex where "spaces1 \<equiv> plus (OneOf [Space])"

text \<open>\<^verbatim>\<open>if (cond) list.push(x)\<close>\<close>

definition pushIf :: "bool \<Rightarrow> 'a \<Rightarrow> 'a list \<Rightarrow> 'a list" where
  "pushIf cond x list = (if cond then list @ [x] else list)"

text \<open>\<^verbatim>\<open>if (!ids.includes(m)) ids.push(m)\<close>\<close>

definition pushNew :: "string \<Rightarrow> string list \<Rightarrow> string list" where
  "pushNew m ids = (if m \<in> set ids then ids else ids @ [m])"

subsection \<open>Script contents and page title\<close>

text \<open>\<^verbatim>\<open>/<script[^>]*>([\s\S]*?)<\/script>/gi\<close>\<close>

definition scriptPattern :: gregex where
  "scriptPattern = Group
     (seqs [Lit ''<script'', star (NoneOf [Chr (CHR ''>'')]), Lit ''>''])
     (lazyStar (OneOf [Space, NonSpace]))
     (Lit ''</script>'')"

definition extractScriptContents :: "string \<Rightarrow> string option" where
  "extractScriptContents html =
     execLoop True scriptPattern html (\<lambda>m allScripts. allScripts @ '' '' @ m @ '' '') 0 []"

text \<open>\<^verbatim>\<open>/<title>([^<]*)<\/title>/i\<close>\<close>

definition titlePattern :: gregex where
  "titlePattern = Group (Lit ''<title>'') (star (NoneOf [Chr (CHR ''<'')])) (Lit ''</title>'')"

definition extractPageTitle :: "string \<Rightarrow> string option" where
  "extractPageTitle html = map_option trim (match1 True titlePattern html)"

subsection \<open>Analytics\<close>

record ga4Check =
  ga4Found :: bool
  measurementIds :: "string list"

record gtmCheck =
  gtmFound :: bool
  containerIds :: "string list"

record clarityCheck =
  clarityFound :: bool
  projectId :: "string option"

record verificationCheck =
  verificationFound :: bool
  verificationCode :: "string option"

record seoPluginCheck =
  pluginsFound :: bool
  plugins :: "string list"

text \<open>\<^verbatim>\<open>/G-[A-Z0-9]{8,12}/\<close> and
  \<^verbatim>\<open>/(?:["'\s,;(]|^)(G-[A-Z0-9]{8,12})(?:["'\s,;)]|$)/gi\<close>\<close>

definition ga4Id :: regex where
  "ga4Id = Seq (Lit ''G-'') (Rep (OneOf [Rng (CHR ''A'') (CHR ''Z''), Rng (CHR ''0'') (CHR ''9'')]) 8 (Some 12) True)"

definition ga4IdPattern :: gregex where
  "ga4IdPattern = Group
     (Alt (Cls (OneOf [Chr dq, Chr sq, Space, Chr (CHR '',''), Chr (CHR '';''), Chr (CHR ''('')])) Bol)
     ga4Id
     (Alt (Cls (OneOf [Chr dq, Chr sq, Space, Chr (CHR '',''), Chr (CHR '';''), Chr (CHR '')'')])) Eol)"

definition checkGA4 :: "string \<Rightarrow> ga4Check option" where
  "checkGA4 content =
     (let found = (test False (Lit ''googletagmanager.com/gtag/js'') content \<or>
                   test False ga4Id content)
      in do {
        ids \<leftarrow> execLoop True ga4IdPattern content pushNew 0 [];
        Some \<lparr>ga4Found = found, measurementIds = ids\<rparr>
      })"

text \<open>\<^verbatim>\<open>/(?:["'\s,;(?]|^)(GTM-[A-Z0-9]{5,8})(?:["'\s,;)?]|$)/gi\<close>\<close>

definition gtmIdPattern :: gregex where
  "gtmIdPattern = Group
     (Alt (Cls (OneOf [Chr dq, Chr sq, Space, Chr (CHR '',''), Chr (CHR '';''), Chr (CHR ''(''), Chr (CHR ''?'')])) Bol)
     (Seq (Lit ''GTM-'') (Rep (OneOf [Rng (CHR ''A'') (CHR ''Z''), Rng (CHR ''0'') (CHR ''9'')]) 5 (Some 8) True))
     (Alt (Cls (OneOf [Chr dq, Chr sq, Space, Chr (CHR '',''), Chr (CHR '';''), Chr (CHR '')''), Chr (CHR ''?'')])) Eol)"

definition checkGTM :: "string \<Rightarrow> gtmCheck option" where
  "checkGTM content =
     (let found = test False (Lit ''googletagmanager.com/gtm.js'') content
      in do {
        ids \<leftarrow> execLoop True gtmIdPattern content pushNew 0 [];
        Some \<lparr>gtmFound = found, containerIds = ids\<rparr>
      })"

text \<open>\<^verbatim>\<open>/clarity\.ms\/tag\/([a-z0-9-]{6,40})/i\<close>\<close>

definition clarityIdPattern :: gregex where
  "clarityIdPattern = Group (Lit ''clarity.ms/tag/'')
     (Rep (OneOf [Rng (CHR ''a'') (CHR ''z''), Rng (CHR ''0'') (CHR ''9''), Chr (CHR ''-'')]) 6 (Some 40) True)
     (Lit [])"

definition checkMicrosoftClarity :: "string \<Rightarrow> clarityCheck" where
  "checkMicrosoftClarity content =
     (let found = test False (Lit ''clarity.ms'') content;
          idMatch = match1 True clarityIdPattern content
      in \<lparr>clarityFound = found, projectId = idMatch\<rparr>)"

text \<open>\<^verbatim>\<open>/<meta\s+name=["']NAME["']\s+content=["']([^"']+)["']/i\<close>\<close>

definition metaPattern :: "string \<Rightarrow> gregex" where
  "metaPattern name = Group
     (seqs [Lit ''<meta'', spaces1, Lit ''name='', Cls quote, Lit name, Cls quote,
            spaces1, Lit ''content='', Cls quote])
     (plus (NoneOf [Chr dq, Chr sq]))
     (Cls quote)"

definition checkSearchConsole :: "string \<Rightarrow> verificationCheck" where
  "checkSearchConsole html =
     (let metaMatch = match1 True (metaPattern ''google-site-verification'') html
      in \<lparr>verificationFound = (metaMatch \<noteq> None), verificationCode = metaMatch\<rparr>)"

definition checkSEOPlugins :: "string \<Rightarrow> seoPluginCheck" where
  "checkSEOPlugins html =
     (let plugins = [];
          plugins = pushIf (test True (alts [Lit ''yoast.com'', seqs [Lit ''yoast'', spaces1, Lit ''seo'']]) html)
                      ''Yoast SEO'' plugins;
          plugins = pushIf (test True (Lit ''rankmath'') html) ''Rank Math SEO'' plugins;
          plugins = pushIf (test True (alts [seqs [Lit ''all'', spaces1, Lit ''in'', spaces1, Lit ''one'', spaces1, Lit ''seo''],
                                             Lit ''aioseo'']) html)
                      ''All in One SEO'' plugins
      in \<lparr>pluginsFound = (length plugins > 0), plugins = plugins\<rparr>)"

definition checkBingWebmaster :: "string \<Rightarrow> verificationCheck" where
  "checkBingWebmaster html =
     (let metaMatch = match1 True (metaPattern ''msvalidate.01'') html
      in \<lparr>verificationFound = (metaMatch \<noteq> None), verificationCode = metaMatch\<rparr>)"

subsection \<open>Marketing\<close>

definition checkCRMPlatforms :: "string \<Rightarrow> string list" where
  "checkCRMPlatforms content =
     (let platforms = [];
          platforms = pushIf (test True (alts [Lit ''hs-scripts.com'', Lit ''hsappstatic.net'', Lit ''hubspot'']) content) ''HubSpot'' platforms;
          platforms = pushIf (test True (alts [Lit ''salesforce.com'', Lit ''pardot.com'']) content) ''Salesforce'' platforms;
          platforms = pushIf (test True (alts [Lit ''marketo.net'', Lit ''mktoForms'']) content) ''Marketo'' platforms;
          platforms = pushIf (test True (Lit ''pipedrive.com'') content) ''Pipedrive'' platforms;
          platforms = pushIf (test True (alts [Lit ''zoho.com'', Lit ''zohostatic.com'']) content) ''Zoho CRM'' platforms
      in platforms)"

definition checkEmailMarketingTools :: "string \<Rightarrow> string list" where
  "checkEmailMarketingTools content =
     (let tools = [];
          tools = pushIf (test True (alts [Lit ''list-manage.com'', Lit ''mailchimp.com'']) content) ''Mailchimp'' tools;
          tools = pushIf (test True (Lit ''klaviyo.com'') content) ''Klaviyo'' tools;
          tools = pushIf (test True (Lit ''activecampaign.com'') content) ''ActiveCampaign'' tools;
          tools = pushIf (test True (Lit ''constantcontact.com'') content) ''Constant Contact'' tools;
          tools = pushIf (test True (Lit ''convertkit.com'') content) ''ConvertKit'' tools;
          tools = pushIf (test True (alts [Lit ''sendinblue.com'', Lit ''brevo.com'']) content) ''Brevo/Sendinblue'' tools
      in tools)"

record adPlatformsCheck =
  platforms :: "string list"
  foundPixelIds :: "string list"

text \<open>\<^verbatim>\<open>/fbq\s*\(\s*['"]init['"]\s*,\s*['"](\d+)['"]\s*\)/gi\<close>\<close>

definition fbPattern :: gregex where
  "fbPattern = Group
     (seqs [Lit ''fbq'', spaces, Lit ''('', spaces, Cls quote, Lit ''init'', Cls quote,
            spaces, Lit '','', spaces, Cls quote])
     (plus (OneOf [Digit]))
     (seqs [Cls quote, spaces, Lit '')''])"

definition checkAdPlatforms :: "string \<Rightarrow> adPlatformsCheck option" where
  "checkAdPlatforms content =
     (let platforms = [];
          platforms = pushIf (test True (alts [Lit ''googleadservices.com'', Lit ''google_conversion'']) content) ''Google Ads'' platforms;
          platforms = pushIf (test True (alts [Lit ''facebook.com/tr'', Lit ''fbevents.js'', seqs [Lit ''fbq'', spaces, Lit ''('']]) content) ''Facebook/Meta Pixel'' platforms;
          platforms = pushIf (test True (alts [Lit ''snap.licdn.com'', Lit ''linkedin.com/px'']) content) ''LinkedIn Insight Tag'' platforms;
          platforms = pushIf (test True (alts [Lit ''analytics.tiktok.com'', Lit ''ttq.load'']) content) ''TikTok Pixel'' platforms;
          platforms = pushIf (test True (alts [Lit ''static.ads-twitter.com'', seqs [Lit ''twq'', spaces, Lit ''('']]) content) ''Twitter/X Pixel'' platforms;
          platforms = pushIf (test True (alts [Lit ''pintrk'', Lit ''ct.pinterest.com'']) content) ''Pinterest Tag'' platforms;
          platforms = pushIf (test True (alts [Lit ''sc-static.net'', Lit ''snaptr'']) content) ''Snapchat Pixel'' platforms;
          platforms = pushIf (test True (alts [Lit ''reddit.com/pixel'', seqs [Lit ''rdt'', spaces, Lit ''('']]) content) ''Reddit Pixel'' platforms
      in do {
        pixelIds \<leftarrow> execLoop True fbPattern content (\<lambda>m pixelIds. pixelIds @ [''Facebook: '' @ m]) 0 [];
        Some \<lparr>platforms = platforms, foundPixelIds = pixelIds\<rparr>
      })"

definition checkConversionOptimizationTools :: "string \<Rightarrow> string list" where
  "checkConversionOptimizationTools content =
     (let tools = [];
          tools = pushIf (test True (alts [Lit ''static.hotjar.com'', Lit ''hotjar.js'']) content) ''Hotjar'' tools;
          tools = pushIf (test True (Lit ''optimizely.com'') content) ''Optimizely'' tools;
          tools = pushIf (test True (alts [Lit ''visualwebsiteoptimizer.com'', Lit ''vwo.com'']) content) ''VWO'' tools;
          tools = pushIf (test True (Lit ''crazyegg.com'') content) ''Crazy Egg'' tools;
          tools = pushIf (test True (Lit ''mouseflow.com'') content) ''Mouseflow'' tools;
          tools = pushIf (test True (Lit ''fullstory.com'') content) ''FullStory'' tools;
          tools = pushIf (test True (Lit ''luckyorange.com'') content) ''Lucky Orange'' tools;
          tools = pushIf (test True (Lit ''cdn.segment.com'') content) ''Segment'' tools
      in tools)"

definition checkWidgets :: "string \<Rightarrow> string list" where
  "checkWidgets content =
     (let widgets = [];
          widgets = pushIf (test True (alts [Lit ''intercom.io'', Lit ''intercomcdn.com'']) content) ''Intercom'' widgets;
          widgets = pushIf (test True (alts [Lit ''zendesk.com'', Lit ''zdassets.com'']) content) ''Zendesk Chat'' widgets;
          widgets = pushIf (test True (alts [Lit ''drift.com'', Lit ''js.driftt.com'']) content) ''Drift'' widgets;
          widgets = pushIf (test True (Lit ''tawk.to'') content) ''Tawk.to'' widgets;
          widgets = pushIf (test True (Lit ''livechatinc.com'') content) ''LiveChat'' widgets;
          widgets = pushIf (test True (Lit ''crisp.chat'') content) ''Crisp'' widgets;
          widgets = pushIf (test True (Lit ''calendly.com'') content) ''Calendly'' widgets;
          widgets = pushIf (test True (Lit ''typeform.com'') content) ''Typeform'' widgets
      in widgets)"

subsection \<open>Infrastructure\<close>

definition checkCMS :: "string \<Rightarrow> string \<Rightarrow> string list" where
  "checkCMS combined html =
     (let cmsList = [];
          cmsList = pushIf (test True (alts [Lit ''wp-content/'', Lit ''wp-includes/'']) combined) ''WordPress'' cmsList;
          cmsList = pushIf (test True (alts [Lit ''webflow.js'', Lit ''webflow.io'']) combined) ''Webflow'' cmsList;
          cmsList = pushIf (test True (alts [Lit ''squarespace.com'', Lit ''squarespace-cdn.com'']) combined) ''Squarespace'' cmsList;
          cmsList = pushIf (test True (alts [Lit ''wix.com'', Lit ''wixstatic.com'']) combined) ''Wix'' cmsList;
          cmsList = pushIf (test True (alts [Lit ''drupal-settings-json'', Lit ''drupalSettings'']) html) ''Drupal'' cmsList
      in cmsList)"

definition checkEcommercePlatforms :: "string \<Rightarrow> string \<Rightarrow> string option" where
  "checkEcommercePlatforms combined html =
     (if test True (alts [Lit ''cdn.shopify.com'', Lit ''myshopify.com'']) combined then Some ''Shopify''
      else if test True (Lit ''woocommerce'') combined then Some ''WooCommerce''
      else if test True (Lit ''magento'') combined then Some ''Magento''
      else if test True (Lit ''bigcommerce.com'') combined then Some ''BigCommerce''
      else None)"

text \<open>
  The response headers are an object with string values: the list of its properties in
  their order. \<^verbatim>\<open>JSON.stringify\<close> of it quotes each name and value, escaping the quote,
  the backslash and the control characters.
\<close>

type_synonym headers = "(string \<times> string) list"

abbreviation bs :: char where "bs \<equiv> CHR 0x5C"

definition hexDigit :: "nat \<Rightarrow> char" where
  "hexDigit k = ''0123456789abcdef'' ! (k mod 16)"

definition quoteJSONChar :: "char \<Rightarrow> string" where
  "quoteJSONChar c = (let k = of_char c :: nat in
     if c = dq then [bs, dq]
     else if c = bs then [bs, bs]
     else if k = 8 then [bs, CHR ''b'']
     else if k = 9 then [bs, CHR ''t'']
     else if k = 10 then [bs, CHR ''n'']
     else if k = 12 then [bs, CHR ''f'']
     else if k = 13 then [bs, CHR ''r'']
     else if k < 32 then [bs, CHR ''u'', CHR ''0'', CHR ''0'', hexDigit (k div 16), hexDigit k]
     else [c])"

definition quoteJSONString :: "string \<Rightarrow> string" where
  "quoteJSONString s = [dq] @ concat (map quoteJSONChar s) @ [dq]"

fun joinWith :: "string \<Rightarrow> string list \<Rightarrow> string" where
  "joinWith sep [] = []"
| "joinWith sep [x] = x"
| "joinWith sep (x # xs) = x @ sep @ joinWith sep xs"

definition stringifyHeaders :: "headers \<Rightarrow> string" where
  "stringifyHeaders h =
     ''{'' @ joinWith '','' (map (\<lambda>(k, v). quoteJSONString k @ '':'' @ quoteJSONString v) h) @ ''}''"

definition checkCDNProviders :: "string \<Rightarrow> headers \<Rightarrow> string list" where
  "checkCDNProviders combined headers =
     (let providers = [];
          searchContent = combined @ '' '' @ stringifyHeaders headers;
          providers = pushIf (test True (alts [Lit ''cloudflare.com'', Lit ''cf-ray'']) searchContent) ''Cloudflare'' providers;
          providers = pushIf (test True (Lit ''cloudfront.net'') searchContent) ''Amazon CloudFront'' providers;
          providers = pushIf (test True (Lit ''fastly.net'') searchContent) ''Fastly'' providers;
          providers = pushIf (test True (Lit ''akamai.net'') searchContent) ''Akamai'' providers
      in providers)"

text \<open>A property that is absent is \<^verbatim>\<open>undefined\<close>; \<^verbatim>\<open>undefined\<close>, \<^verbatim>\<open>null\<close> and the empty
  string are falsy, every other string is truthy. \<open>orEmpty v\<close> is \<^verbatim>\<open>v || ''\<close> and
  \<open>orNull v\<close> is \<^verbatim>\<open>v || null\<close>.\<close>

definition truthy :: "string option \<Rightarrow> bool" where
  "truthy v = (case v of None \<Rightarrow> False | Some s \<Rightarrow> s \<noteq> [])"

definition orEmpty :: "string option \<Rightarrow> string" where
  "orEmpty v = (case v of None \<Rightarrow> [] | Some s \<Rightarrow> s)"

definition orNull :: "string option \<Rightarrow> string option" where
  "orNull v = (if truthy v then v else None)"

definition detectHostingFromHeaders :: "headers \<Rightarrow> string \<Rightarrow> string" where
  "detectHostingFromHeaders headers domain =
     (let serverHeader = toLowerCase (orEmpty (map_of headers ''server''));
          cfRay = map_of headers ''cf-ray'';
          xVercelId = map_of headers ''x-vercel-id'';
          xNetlify = map_of headers ''x-nf-request-id''
      in if truthy cfRay then ''Cloudflare''
         else if truthy xVercelId then ''Vercel''
         else if truthy xNetlify then ''Netlify''
         else if truthy (map_of headers ''x-github-request'') then ''GitHub Pages''
         else if strIncludes serverHeader ''nginx'' then ''Nginx''
         else if strIncludes serverHeader ''apache'' then ''Apache''
         else ''Unknown'')"

subsection \<open>Structured data and meta tags\<close>

text \<open>
  The values \<^verbatim>\<open>JSON.parse\<close> yields, and \<^verbatim>\<open>undefined\<close>. A number is the value of the
  double: a rational or an infinity (the two zeros are one value, and there is no NaN
  in JSON). An object is the list of its properties.
\<close>

datatype jsnum = Finite rat | Infinite bool

datatype jsval = JUndefined | JNull | JBool bool | JNumber jsnum | JString string
  | JArray "jsval list" | JObject "(string \<times> jsval) list"

datatype jsError = SyntaxError | TypeError

fun truthyVal :: "jsval \<Rightarrow> bool" where
  "truthyVal JUndefined = False"
| "truthyVal JNull = False"
| "truthyVal (JBool b) = b"
| "truthyVal (JNumber n) = (n \<noteq> Finite 0)"
| "truthyVal (JString s) = (s \<noteq> [])"
| "truthyVal (JArray xs) = True"
| "truthyVal (JObject kv) = True"

fun isPrimitive :: "jsval \<Rightarrow> bool" where
  "isPrimitive (JArray xs) = False"
| "isPrimitive (JObject kv) = False"
| "isPrimitive v = True"

text \<open>\<^verbatim>\<open>schema['@type']\<close>: a \<^verbatim>\<open>TypeError\<close> on \<^verbatim>\<open>null\<close>, the property of an object,
  \<^verbatim>\<open>undefined\<close> on an array and on a boolean, a number or a string.\<close>

fun getType :: "jsval \<Rightarrow> jsError + jsval" where
  "getType JNull = Inl TypeError"
| "getType JUndefined = Inl TypeError"
| "getType (JObject kv) = Inr (case map_of kv ''@type'' of None \<Rightarrow> JUndefined | Some v \<Rightarrow> v)"
| "getType v = Inr JUndefined"

text \<open>\<^verbatim>\<open>Array.isArray(t) ? t[0] : t\<close>\<close>

fun firstType :: "jsval \<Rightarrow> jsval" where
  "firstType (JArray []) = JUndefined"
| "firstType (JArray (x # xs)) = x"
| "firstType v = v"

text \<open>\<^verbatim>\<open>types.includes(type)\<close> compares strings, numbers, booleans, \<^verbatim>\<open>null\<close> and
  \<^verbatim>\<open>undefined\<close> by value and objects by identity. An object or array in \<open>type\<close> was
  created by the \<^verbatim>\<open>JSON.parse\<close> call of this block, so it is identical to no element that
  is already in the list.\<close>

definition typesIncludes :: "jsval list \<Rightarrow> jsval \<Rightarrow> bool" where
  "typesIncludes types t = (isPrimitive t \<and> t \<in> set types)"

text \<open>The body of the \<^verbatim>\<open>try\<close> block. \<open>parse\<close> is \<^verbatim>\<open>JSON.parse\<close>, \<open>None\<close> where it throws a
  \<^verbatim>\<open>SyntaxError\<close>.\<close>

definition tryBlock :: "(string \<Rightarrow> jsval option) \<Rightarrow> string \<Rightarrow> jsval list \<Rightarrow> jsError + jsval list" where
  "tryBlock parse m types =
     (case parse (trim m) of
        None \<Rightarrow> Inl SyntaxError
      | Some schema \<Rightarrow>
          (case getType schema of
             Inl e \<Rightarrow> Inl e
           | Inr t \<Rightarrow>
               if truthyVal t
               then let type = firstType t
                    in if \<not> typesIncludes types type then Inr (types @ [type]) else Inr types
               else Inr types))"

text \<open>\<^verbatim>\<open>try { ... } catch (e) { }\<close>\<close>

definition schemaStep :: "(string \<Rightarrow> jsval option) \<Rightarrow> string \<Rightarrow> jsval list \<Rightarrow> jsval list" where
  "schemaStep parse m types = (case tryBlock parse m types of Inl e \<Rightarrow> types | Inr types' \<Rightarrow> types')"

text \<open>\<^verbatim>\<open>/<script\s+type=["']application\/ld\+json["'][^>]*>([\s\S]*?)<\/script>/gi\<close>\<close>

definition jsonLdPattern :: gregex where
  "jsonLdPattern = Group
     (seqs [Lit ''<script'', spaces1, Lit ''type='', Cls quote, Lit ''application/ld+json'', Cls quote,
            star (NoneOf [Chr (CHR ''>'')]), Lit ''>''])
     (lazyStar (OneOf [Space, NonSpace]))
     (Lit ''</script>'')"

record schemaCheck =
  schemaFound :: bool
  types :: "jsval list"

definition extractJSONLDSchema :: "(string \<Rightarrow> jsval option) \<Rightarrow> string \<Rightarrow> schemaCheck option" where
  "extractJSONLDSchema parse html = do {
     types \<leftarrow> execLoop True jsonLdPattern html (schemaStep parse) 0 [];
     Some \<lparr>schemaFound = (length types > 0), types = types\<rparr>
   }"

record metaBasic =
  description :: "string option"
  robots :: "string option"
  canonical :: "string option"

record metaTagsResult =
  basic :: metaBasic

text \<open>\<^verbatim>\<open>/<meta\s+name=["']NAME["']\s+content=["']([^"']*)/i\<close> and
  \<^verbatim>\<open>/<link\s+rel=["']canonical["']\s+href=["']([^"']*)/i\<close>\<close>

definition metaOpenPattern :: "string \<Rightarrow> gregex" where
  "metaOpenPattern name = Group
     (seqs [Lit ''<meta'', spaces1, Lit ''name='', Cls quote, Lit name, Cls quote,
            spaces1, Lit ''content='', Cls quote])
     (star (NoneOf [Chr dq, Chr sq]))
     (Lit [])"

definition canonicalPattern :: gregex where
  "canonicalPattern = Group
     (seqs [Lit ''<link'', spaces1, Lit ''rel='', Cls quote, Lit ''canonical'', Cls quote,
            spaces1, Lit ''href='', Cls quote])
     (star (NoneOf [Chr dq, Chr sq]))
     (Lit [])"

definition extractImportantMetaTags :: "string \<Rightarrow> metaTagsResult" where
  "extractImportantMetaTags html =
     (let descMatch = match1 True (metaOpenPattern ''description'') html;
          robotsMatch = match1 True (metaOpenPattern ''robots'') html;
          canonicalMatch = match1 True canonicalPattern html
      in \<lparr>basic = \<lparr>description = descMatch, robots = robotsMatch, canonical = canonicalMatch\<rparr>\<rparr>)"

subsection \<open>\<^verbatim>\<open>runDetectors\<close>\<close>

record analyticsFindings =
  ga4 :: ga4Check
  gtm :: gtmCheck
  microsoftClarity :: clarityCheck
  searchConsole :: verificationCheck
  seoPlugin :: seoPluginCheck
  bingWebmaster :: verificationCheck

record marketingFindings =
  crm :: "string list"
  emailMarketing :: "string list"
  adPlatforms :: "string list"
  pixelIds :: "string list"
  conversionTools :: "string list"
  widgets :: "string list"

record infrastructureFindings =
  cms :: "string list"
  ecommerce :: "string option"
  cdn :: "string list"

record seoFindings =
  hasSchema :: bool
  schemaTypes :: "jsval list"
  metaTags :: metaTagsResult
  seoCanonical :: "string option"
  seoRobots :: "string option"

text \<open>The object \<^verbatim>\<open>runDetectors\<close> returns; \<open>'i\<close> is the type of its \<^verbatim>\<open>infrastructure\<close>
  section, to which \<^verbatim>\<open>analyzeWebsite\<close> adds the \<^verbatim>\<open>hosting\<close> label.\<close>

record 'i detections =
  pageTitle :: "string option"
  analytics :: analyticsFindings
  marketing :: marketingFindings
  infrastructure :: 'i
  seo :: seoFindings

text \<open>The corpus \<^verbatim>\<open>`${html} ${scriptContents}`\<close>.\<close>

definition combinedCorpus :: "string \<Rightarrow> string option" where
  "combinedCorpus html = do {
     scriptContents \<leftarrow> extractScriptContents html;
     Some (html @ '' '' @ scriptContents)
   }"

definition runDetectors :: "(string \<Rightarrow> jsval option) \<Rightarrow> string \<Rightarrow> headers \<Rightarrow> infrastructureFindings detections option" where
  "runDetectors parse html headers = do {
     combined \<leftarrow> combinedCorpus html;
     ga4 \<leftarrow> checkGA4 combined;
     gtm \<leftarrow> checkGTM combined;
     ads1 \<leftarrow> checkAdPlatforms combined;
     ads2 \<leftarrow> checkAdPlatforms combined;
     schema1 \<leftarrow> extractJSONLDSchema parse html;
     schema2 \<leftarrow> extractJSONLDSchema parse html;
     Some \<lparr>
       pageTitle = extractPageTitle html,
       analytics = \<lparr>
         ga4 = ga4,
         gtm = gtm,
         microsoftClarity = checkMicrosoftClarity combined,
         searchConsole = checkSearchConsole html,
         seoPlugin = checkSEOPlugins html,
         bingWebmaster = checkBingWebmaster html\<rparr>,
       marketing = \<lparr>
         crm = checkCRMPlatforms combined,
         emailMarketing = checkEmailMarketingTools combined,
         adPlatforms = platforms ads1,
         pixelIds = foundPixelIds ads2,
         conversionTools = checkConversionOptimizationTools combined,
         widgets = checkWidgets combined\<rparr>,
       infrastructure = \<lparr>
         cms = checkCMS combined html,
         ecommerce = checkEcommercePlatforms combined html,
         cdn = checkCDNProviders combined headers\<rparr>,
       seo = \<lparr>
         hasSchema = schemaFound schema1,
         schemaTypes = types schema2,
         metaTags = extractImportantMetaTags html,
         seoCanonical = orNull (canonical (basic (extractImportantMetaTags html))),
         seoRobots = orNull (robots (basic (extractImportantMetaTags html)))\<rparr>\<rparr>
   }"

subsection \<open>\<^verbatim>\<open>calculateSummary\<close>\<close>

record hostedInfrastructure = infrastructureFindings +
  hosting :: string

text \<open>The result object of \<^verbatim>\<open>analyzeWebsite\<close>, without the fields it copies from the
  request and the response (\<^verbatim>\<open>url\<close>, \<^verbatim>\<open>domain\<close>, \<^verbatim>\<open>timestamp\<close>, \<^verbatim>\<open>fetchTimeMs\<close>,
  \<^verbatim>\<open>statusCode\<close>, \<^verbatim>\<open>htmlSize\<close>).\<close>

record result = "hostedInfrastructure detections" +
  enhancedDetection :: bool

record categoryCounts =
  analyticsCount :: nat
  marketingCount :: nat
  infrastructureCount :: nat
  seoCount :: nat

record summary =
  totalToolsFound :: nat
  categories :: categoryCounts

definition calculateSummary :: "result \<Rightarrow> summary" where
  "calculateSummary result =
     (let analyticsCount = length (filter (\<lambda>b. b) [
            ga4Found (ga4 (analytics result)),
            gtmFound (gtm (analytics result)),
            clarityFound (microsoftClarity (analytics result)),
            verificationFound (searchConsole (analytics result)),
            pluginsFound (seoPlugin (analytics result)),
            verificationFound (bingWebmaster (analytics result))]);
          marketingCount =
            length (crm (marketing result)) +
            length (emailMarketing (marketing result)) +
            length (adPlatforms (marketing result)) +
            length (conversionTools (marketing result)) +
            length (widgets (marketing result));
          infrastructureCount =
            length (cms (infrastructure result)) +
            (if truthy (ecommerce (infrastructure result)) then 1 else 0) +
            length (cdn (infrastructure result));
          seoCount =
            (if hasSchema (seo result) then 1 else 0) +
            (if truthy (description (basic (metaTags (seo result)))) then 1 else 0)
      in \<lparr>totalToolsFound = analyticsCount + marketingCount + infrastructureCount + seoCount,
          categories = \<lparr>analyticsCount = analyticsCount, marketingCount = marketingCount,
                        infrastructureCount = infrastructureCount, seoCount = seoCount\<rparr>\<rparr>)"

subsection \<open>\<^verbatim>\<open>analyzeWebsite\<close>: building the result and merging the enhanced data\<close>

text \<open>
  The response of the rendering service. \<open>enhPixels\<close> is \<^verbatim>\<open>enhancedData.pixels\<close>:
  \<open>None\<close> when it is absent or falsy, else its entries, a platform name with the
  truthiness of its value. \<open>enhPixelIds\<close> is \<^verbatim>\<open>enhancedData.pixelIds\<close>: its entries, a
  platform name with the identifiers when the value is an array and \<open>None\<close> when it is not.
\<close>

record enhancedData =
  enhPixels :: "(string \<times> bool) list option"
  enhPixelIds :: "(string \<times> string list option) list option"

definition mergePixels :: "(string \<times> bool) list \<Rightarrow> string list \<Rightarrow> string list" where
  "mergePixels entries current =
     foldl (\<lambda>list (platform, found). if found \<and> platform \<notin> set list then list @ [platform] else list)
       current entries"

definition mergePixelIds :: "(string \<times> string list option) list \<Rightarrow> string list \<Rightarrow> string list" where
  "mergePixelIds entries current =
     current @ concat (map (\<lambda>(platform, ids).
        case ids of Some l \<Rightarrow> map (\<lambda>id. platform @ '': '' @ id) l | None \<Rightarrow> []) entries)"

definition mergeEnhanced :: "enhancedData \<Rightarrow> result \<Rightarrow> result" where
  "mergeEnhanced enhancedData result =
     (let result = result\<lparr>enhancedDetection := True\<rparr>;
          result = (case enhPixels enhancedData of
                      None \<Rightarrow> result
                    | Some entries \<Rightarrow>
                        result\<lparr>marketing := (marketing result)\<lparr>adPlatforms :=
                          mergePixels entries (adPlatforms (marketing result))\<rparr>\<rparr>);
          result = (case enhPixelIds enhancedData of
                      None \<Rightarrow> result
                    | Some entries \<Rightarrow>
                        result\<lparr>marketing := (marketing result)\<lparr>pixelIds :=
                          mergePixelIds entries (pixelIds (marketing result))\<rparr>\<rparr>)
      in result)"

record report = result +
  summary :: summary

text \<open>
  \<^verbatim>\<open>analyzeWebsite\<close> after the page has been fetched: \<open>html\<close> and \<open>headers\<close> are the
  response, \<open>enhanced\<close> is the answer of the rendering service, \<open>None\<close> when no API key
  is given or the call fails (the failure is caught and logged).
\<close>

definition analyzeWebsite :: "(string \<Rightarrow> jsval option) \<Rightarrow> string \<Rightarrow> headers \<Rightarrow> string \<Rightarrow> enhancedData option \<Rightarrow> report option" where
  "analyzeWebsite parse html headers domain enhanced = do {
     detections \<leftarrow> runDetectors parse html headers;
     let result = \<lparr>
       pageTitle = pageTitle detections,
       analytics = analytics detections,
       marketing = marketing detections,
       infrastructure = \<lparr>
         cms = cms (infrastructure detections),
         ecommerce = ecommerce (infrastructure detections),
         cdn = cdn (infrastructure detections),
         hosting = detectHostingFromHeaders headers domain\<rparr>,
       seo = seo detections,
       enhancedDetection = False\<rparr>;
     let result = (case enhanced of None \<Rightarrow> result | Some enhancedData \<Rightarrow> mergeEnhanced enhancedData result);
     Some (result.extend result \<lparr>summary = calculateSummary result\<rparr>)
   }"

section \<open>The rules in the words of the specification\<close>

text \<open>The blocks a pattern finds: the captures of the successive matches of the loop, in
  order.\<close>

definition allCaptures :: "bool \<Rightarrow> gregex \<Rightarrow> string \<Rightarrow> nat \<Rightarrow> string list option" where
  "allCaptures ci p s i = execLoop ci p s (\<lambda>m l. l @ [m]) i []"

text \<open>
  The decision list in the words of the specification: an ordered list of tests on the
  header mapping, each with its label; the label of the first test that holds is the
  answer, and \<^verbatim>\<open>Unknown\<close> when none holds. A header key matches when its value is truthy,
  that is present and not the empty string.
\<close>

definition hostingRules :: "((headers \<Rightarrow> bool) \<times> string) list" where
  "hostingRules =
     [(\<lambda>h. truthy (map_of h ''cf-ray''), ''Cloudflare''),
      (\<lambda>h. truthy (map_of h ''x-vercel-id''), ''Vercel''),
      (\<lambda>h. truthy (map_of h ''x-nf-request-id''), ''Netlify''),
      (\<lambda>h. truthy (map_of h ''x-github-request''), ''GitHub Pages''),
      (\<lambda>h. strIncludes (toLowerCase (orEmpty (map_of h ''server''))) ''nginx'', ''Nginx''),
      (\<lambda>h. strIncludes (toLowerCase (orEmpty (map_of h ''server''))) ''apache'', ''Apache'')]"

fun firstLabel :: "((headers \<Rightarrow> bool) \<times> string) list \<Rightarrow> headers \<Rightarrow> string" where
  "firstLabel [] h = ''Unknown''"
| "firstLabel ((holds, label) # rules) h = (if holds h then label else firstLabel rules h)"

text \<open>
  The e-commerce decision list in the words of the specification: the rules in
  declaration order, each a pattern with its platform; the platform of the first rule
  whose pattern occurs in the corpus, and no platform when none does.
\<close>

definition ecommerceRules :: "(regex \<times> string) list" where
  "ecommerceRules =
     [(alts [Lit ''cdn.shopify.com'', Lit ''myshopify.com''], ''Shopify''),
      (Lit ''woocommerce'', ''WooCommerce''),
      (Lit ''magento'', ''Magento''),
      (Lit ''bigcommerce.com'', ''BigCommerce'')]"

fun firstPlatform :: "(regex \<times> string) list \<Rightarrow> string \<Rightarrow> string option" where
  "firstPlatform [] corpus = None"
| "firstPlatform ((pattern, platform) # rules) corpus =
     (if test True pattern corpus then Some platform else firstPlatform rules corpus)"

text \<open>
  A block of structured data in the words of the specification: the opening tag
  \<^verbatim>\<open><script\<close>, white space, \<^verbatim>\<open>type=\<close>, the media type \<^verbatim>\<open>application/ld+json\<close> between
  quotes, the rest of the tag up to its \<^verbatim>\<open>>\<close>; the body, which holds no closing tag; and
  the closing tag \<^verbatim>\<open></script>\<close>. The words of the tags are in any letter case.
\<close>

record ldBlock =
  openScript :: string
  openSpace :: string
  openType :: string
  openQuote1 :: char
  openMime :: string
  openQuote2 :: char
  openAttrs :: string
  blockBody :: string
  blockEnd :: string

definition openTag :: "ldBlock \<Rightarrow> string" where
  "openTag b = openScript b @ openSpace b @ openType b @ [openQuote1 b] @ openMime b @ [openQuote2 b]
     @ openAttrs b @ ''>''"

definition blockText :: "ldBlock \<Rightarrow> string" where
  "blockText b = openTag b @ blockBody b @ blockEnd b"

definition wellFormedBlock :: "ldBlock \<Rightarrow> bool" where
  "wellFormedBlock b = (
     toLowerCase (openScript b) = ''<script'' \<and>
     openSpace b \<noteq> [] \<and> list_all (\<lambda>c. isSpace (of_char c)) (openSpace b) \<and>
     toLowerCase (openType b) = ''type='' \<and>
     (openQuote1 b = dq \<or> openQuote1 b = sq) \<and>
     toLowerCase (openMime b) = ''application/ld+json'' \<and>
     (openQuote2 b = dq \<or> openQuote2 b = sq) \<and>
     CHR ''>'' \<notin> set (openAttrs b) \<and>
     \<not> strIncludes (toLowerCase (blockBody b)) ''</script>'' \<and>
     toLowerCase (blockEnd b) = ''</script>'')"

text \<open>
  A page is a sequence of blocks, each after a text, and a last text. The texts are
  any text that does not hold the media type: they may hold other scripts, but no
  script of structured data in another form.
\<close>

definition plainText :: "string \<Rightarrow> bool" where
  "plainText t = (\<not> strIncludes (toLowerCase t) ''application/ld+json'')"

fun pageText :: "(string \<times> ldBlock) list \<Rightarrow> string \<Rightarrow> string" where
  "pageText [] final = final"
| "pageText ((t, b) # segs) final = t @ blockText b @ pageText segs final"

definition wellFormedPage :: "(string \<times> ldBlock) list \<Rightarrow> string \<Rightarrow> bool" where
  "wellFormedPage segs final =
     (list_all (\<lambda>(t, b). plainText t \<and> wellFormedBlock b) segs \<and> plainText final)"

text \<open>
  What a block declares, in the words of the specification. \<open>HasType t\<close>: the body
  parses to an object whose \<^verbatim>\<open>@type\<close> is the truthy string, number or boolean \<open>t\<close>, or
  an array whose first element is the string, number, boolean or \<^verbatim>\<open>null\<close> \<open>t\<close>.
  \<open>NoType\<close>: the body does not parse, or parses to something that is not an object
  with a truthy \<^verbatim>\<open>@type\<close>. \<open>OtherType\<close>: the \<^verbatim>\<open>@type\<close> is an empty array, or it (or the
  first element of the array) is itself an object or an array.
\<close>

datatype blockKind = HasType jsval | NoType | OtherType

definition blockType :: "(string \<Rightarrow> jsval option) \<Rightarrow> string \<Rightarrow> blockKind" where
  "blockType parse m =
     (case parse (trim m) of
        Some (JObject kv) \<Rightarrow>
          (case map_of kv ''@type'' of
             None \<Rightarrow> NoType
           | Some (JArray []) \<Rightarrow> OtherType
           | Some (JArray (x # xs)) \<Rightarrow> if isPrimitive x then HasType x else OtherType
           | Some (JObject kv') \<Rightarrow> OtherType
           | Some t \<Rightarrow> if truthyVal t then HasType t else NoType)
      | _ \<Rightarrow> NoType)"

definition declaredTypes :: "(string \<Rightarrow> jsval option) \<Rightarrow> (string \<times> ldBlock) list \<Rightarrow> jsval list" where
  "declaredTypes parse segs =
     concat (map (\<lambda>(t, b). case blockType parse (blockBody b) of HasType ty \<Rightarrow> [ty] | _ \<Rightarrow> []) segs)"

text \<open>The deduplicated, insertion-ordered list of a sequence: every element once, at
  the place of its first occurrence.\<close>

definition firstOccurrences :: "'a list \<Rightarrow> 'a list" where
  "firstOccurrences xs = foldl (\<lambda>l x. if x \<in> set l then l else l @ [x]) [] xs"

text \<open>The block \<^verbatim>\<open><script type="application/ld+json">body</script>\<close>.\<close>

definition ldJson :: "string \<Rightarrow> ldBlock" where
  "ldJson body = \<lparr>openScript = ''<script'', openSpace = '' '', openType = ''type='', openQuote1 = dq,
     openMime = ''application/ld+json'', openQuote2 = dq, openAttrs = [], blockBody = body,
     blockEnd = ''</script>''\<rparr>"

text \<open>The value of \<^verbatim>\<open>JSON.parse\<close> at the block bodies of the examples below; the
  only other body they use, \<^verbatim>\<open>{"@type":"Prod\<close>, is not JSON.\<close>

definition exampleParse :: "string \<Rightarrow> jsval option" where
  \<open>exampleParse s =
     (if s = ''{"@type":"Product"}'' then Some (JObject [(''@type'', JString ''Product'')])
      else if s = ''{"@type":["Article","NewsArticle"]}''
        then Some (JObject [(''@type'', JArray [JString ''Article'', JString ''NewsArticle''])])
      else if s = ''{"@type":""}'' then Some (JObject [(''@type'', JString [])])
      else if s = ''{"@type":[]}'' then Some (JObject [(''@type'', JArray [])])
      else if s = ''{"@type":{"@id":"x"}}''
        then Some (JObject [(''@type'', JObject [(''@id'', JString ''x'')])])
      else if s = ''null'' then Some JNull
      else None)\<close>


text \<open>The page of the example below: six blocks between texts, two of the texts with
  scripts of their own.\<close>

definition exampleSegs :: "(string \<times> ldBlock) list" where
  \<open>exampleSegs =
     [(''<p>'', ldJson ''{"@type":"Product"}''),
      (''<script src="a.js"></script>'',
       \<lparr>openScript = ''<SCRIPT'', openSpace = ''  '', openType = ''TYPE='', openQuote1 = sq,
        openMime = ''Application/LD+JSON'', openQuote2 = dq, openAttrs = '' id=x'',
        blockBody = '' {"@type":["Article","NewsArticle"]} '', blockEnd = ''</Script>''\<rparr>),
      ([], ldJson ''{"@type":"Prod''),
      (''<script>x</script>'', ldJson ''{"@type":"Product"}''),
      (''<b>'', ldJson ''{"@type":""}''),
      ([], ldJson ''null'')]\<close>

section \<open>General facts about the matcher and the loops\<close>

lemma execLoop_None [simp]:
  "search ci p (i, drop i s) = None \<Longrightarrow> execLoop ci p s body i acc = Some acc"
  by (simp add: execLoop.simps)

lemma execLoop_Some:
  "search ci p (i, drop i s) = Some (e, cap) \<Longrightarrow> i < e \<Longrightarrow>
     execLoop ci p s body i acc = execLoop ci p s body e (body cap acc)"
  by (subst execLoop.simps) simp

lemma execLoop_append:
  "execLoop ci p s (\<lambda>m l. l @ [m]) i (l0 @ l1) = map_option ((@) l0) (execLoop ci p s (\<lambda>m l. l @ [m]) i l1)"
proof (induction ci p s "\<lambda>(m::string) (l::string list). l @ [m]" i l1 rule: execLoop.induct)
  case (1 ci p s i acc)
  show ?case
  proof (cases "search ci p (i, drop i s)")
    case None
    then show ?thesis by simp
  next
    case (Some x)
    obtain e cap where x: "x = (e, cap)" by (cases x)
    show ?thesis
    proof (cases "e \<le> i")
      case True
      with Some x show ?thesis by (simp add: execLoop.simps)
    next
      case False
      with 1[OF Some x[symmetric] False] Some x show ?thesis
        by (simp add: execLoop_Some)
    qed
  qed
qed

lemma execLoop_fold:
  "execLoop ci p s body i acc = map_option (foldl (\<lambda>a m. body m a) acc) (allCaptures ci p s i)"
proof (induction ci p s body i acc rule: execLoop.induct)
  case (1 ci p s body i acc)
  show ?case
  proof (cases "search ci p (i, drop i s)")
    case None
    then show ?thesis by (simp add: allCaptures_def)
  next
    case (Some x)
    obtain e cap where x: "x = (e, cap)" by (cases x)
    show ?thesis
    proof (cases "e \<le> i")
      case True
      with Some x show ?thesis by (simp add: execLoop.simps allCaptures_def)
    next
      case False
      have "allCaptures ci p s i = map_option ((@) [cap]) (allCaptures ci p s e)"
        using Some x False execLoop_append[of ci p s e "[cap]" "[]"]
        by (simp add: allCaptures_def execLoop_Some)
      with 1[OF Some x[symmetric] False] Some x False show ?thesis
        by (simp add: execLoop_Some option.map_comp comp_def)
    qed
  qed
qed

lemma allCaptures_total: "0 < minLenG p \<Longrightarrow> \<exists>l. allCaptures ci p s i = Some l"
  unfolding allCaptures_def by (rule execLoop_total)

lemma startsWith_litMatch:
  "startsWith s l \<Longrightarrow> litMatch ci l (n, s) \<noteq> []"
  by (induction s l arbitrary: n rule: startsWith.induct) (auto simp: atomMatch_def)

lemma strIncludes_testFrom:
  "strIncludes s l \<Longrightarrow> testFrom ci (Lit l) (n, s)"
proof (induction s arbitrary: n)
  case Nil
  then show ?case using startsWith_litMatch[of "[]" l ci n] by simp
next
  case (Cons a s)
  then show ?case using startsWith_litMatch[of "a # s" l ci n] by auto
qed

lemma strIncludes_test: "strIncludes s l \<Longrightarrow> test ci (Lit l) s"
  by (simp add: test_def strIncludes_testFrom)

lemma testFrom_Alt: "testFrom ci (Alt r1 r2) (n, s) = (testFrom ci r1 (n, s) \<or> testFrom ci r2 (n, s))"
  by (induction s arbitrary: n) auto

lemma test_Alt: "test ci (Alt r1 r2) s = (test ci r1 s \<or> test ci r2 s)"
  by (simp add: test_def testFrom_Alt)

lemma matchAt_Lit_head:
  "matchAt ci (Group (Seq (Lit l) r) g post) st \<noteq> [] \<Longrightarrow> matches ci (Lit l) st \<noteq> []"
  by (cases "litMatch ci l st") auto

lemma search_no_literal:
  "\<not> testFrom ci (Lit l) (n, s) \<Longrightarrow> search ci (Group (Seq (Lit l) r) g post) (n, s) = None"
proof (induction s arbitrary: n)
  case Nil
  then have "matchAt ci (Group (Seq (Lit l) r) g post) (n, []) = []"
    using matchAt_Lit_head[of ci l r g post "(n, [])"] by auto
  then show ?case by (simp del: matchAt.simps)
next
  case (Cons a s)
  then have a: "matches ci (Lit l) (n, a # s) = []" and b: "\<not> testFrom ci (Lit l) (Suc n, s)" by auto
  from a matchAt_Lit_head[of ci l r g post "(n, a # s)"] have "matchAt ci (Group (Seq (Lit l) r) g post) (n, a # s) = []" by auto
  with Cons.IH[OF b] show ?case by (simp del: matchAt.simps)
qed

lemma minLen_patterns [simp]:
  "0 < minLenG scriptPattern" "0 < minLenG ga4IdPattern" "0 < minLenG gtmIdPattern"
  "0 < minLenG fbPattern" "0 < minLenG jsonLdPattern"
  by (simp_all add: scriptPattern_def ga4IdPattern_def ga4Id_def gtmIdPattern_def fbPattern_def jsonLdPattern_def)

section \<open>Every analysis returns\<close>

text \<open>No pattern that drives a loop can match the empty string, so every loop ends.\<close>

lemma extractScriptContents_total: "\<exists>sc. extractScriptContents html = Some sc"
  unfolding extractScriptContents_def by (rule execLoop_total) simp

lemma combinedCorpus_total: "\<exists>c. combinedCorpus html = Some c"
  using extractScriptContents_total[of html] by (auto simp: combinedCorpus_def)

lemma checkGA4_total: "\<exists>g. checkGA4 content = Some g"
  using execLoop_total[of ga4IdPattern True content pushNew 0 "[]"]
  by (auto simp: checkGA4_def Let_def)

lemma checkGTM_total: "\<exists>g. checkGTM content = Some g"
  using execLoop_total[of gtmIdPattern True content pushNew 0 "[]"]
  by (auto simp: checkGTM_def Let_def)

lemma checkAdPlatforms_total: "\<exists>a. checkAdPlatforms content = Some a"
  using execLoop_total[of fbPattern True content "\<lambda>m pixelIds. pixelIds @ [''Facebook: '' @ m]" 0 "[]"]
  by (auto simp: checkAdPlatforms_def Let_def)

lemma extractJSONLDSchema_total: "\<exists>sc. extractJSONLDSchema parse html = Some sc"
  using execLoop_total[of jsonLdPattern True html "schemaStep parse" 0 "[]"]
  by (auto simp: extractJSONLDSchema_def)

lemma runDetectors_eq:
  assumes "combinedCorpus html = Some combined" "checkGA4 combined = Some g"
    "checkGTM combined = Some t" "checkAdPlatforms combined = Some a"
    "extractJSONLDSchema parse html = Some sc"
  shows "runDetectors parse html headers = Some \<lparr>
       pageTitle = extractPageTitle html,
       analytics = \<lparr>
         ga4 = g,
         gtm = t,
         microsoftClarity = checkMicrosoftClarity combined,
         searchConsole = checkSearchConsole html,
         seoPlugin = checkSEOPlugins html,
         bingWebmaster = checkBingWebmaster html\<rparr>,
       marketing = \<lparr>
         crm = checkCRMPlatforms combined,
         emailMarketing = checkEmailMarketingTools combined,
         adPlatforms = platforms a,
         pixelIds = foundPixelIds a,
         conversionTools = checkConversionOptimizationTools combined,
         widgets = checkWidgets combined\<rparr>,
       infrastructure = \<lparr>
         cms = checkCMS combined html,
         ecommerce = checkEcommercePlatforms combined html,
         cdn = checkCDNProviders combined headers\<rparr>,
       seo = \<lparr>
         hasSchema = schemaFound sc,
         schemaTypes = types sc,
         metaTags = extractImportantMetaTags html,
         seoCanonical = orNull (canonical (basic (extractImportantMetaTags html))),
         seoRobots = orNull (robots (basic (extractImportantMetaTags html)))\<rparr>\<rparr>"
  using assms by (simp add: runDetectors_def)

lemma runDetectors_total: "\<exists>d. runDetectors parse html headers = Some d"
proof -
  obtain combined where c: "combinedCorpus html = Some combined" using combinedCorpus_total by blast
  obtain g where g: "checkGA4 combined = Some g" using checkGA4_total by blast
  obtain t where t: "checkGTM combined = Some t" using checkGTM_total by blast
  obtain a where a: "checkAdPlatforms combined = Some a" using checkAdPlatforms_total by blast
  obtain sc where sc: "extractJSONLDSchema parse html = Some sc" using extractJSONLDSchema_total by blast
  from runDetectors_eq[OF c g t a sc] show ?thesis by blast
qed

lemma analyzeWebsite_eq:
  assumes "runDetectors parse html headers = Some d"
  shows "analyzeWebsite parse html headers domain None = Some \<lparr>
       pageTitle = pageTitle d,
       analytics = analytics d,
       marketing = marketing d,
       infrastructure = \<lparr>
         cms = cms (infrastructure d),
         ecommerce = ecommerce (infrastructure d),
         cdn = cdn (infrastructure d),
         hosting = detectHostingFromHeaders headers domain\<rparr>,
       seo = seo d,
       enhancedDetection = False,
       summary = calculateSummary \<lparr>
         pageTitle = pageTitle d,
         analytics = analytics d,
         marketing = marketing d,
         infrastructure = \<lparr>
           cms = cms (infrastructure d),
           ecommerce = ecommerce (infrastructure d),
           cdn = cdn (infrastructure d),
           hosting = detectHostingFromHeaders headers domain\<rparr>,
         seo = seo d,
         enhancedDetection = False\<rparr>\<rparr>"
  using assms by (simp add: analyzeWebsite_def Let_def result.extend_def)

lemma analyzeWebsite_fields:
  "\<exists>combined g t a sc r.
     combinedCorpus html = Some combined \<and> checkGA4 combined = Some g \<and>
     checkGTM combined = Some t \<and> checkAdPlatforms combined = Some a \<and>
     extractJSONLDSchema parse html = Some sc \<and>
     analyzeWebsite parse html headers domain None = Some r \<and>
     ga4 (analytics r) = g \<and> gtm (analytics r) = t \<and>
     microsoftClarity (analytics r) = checkMicrosoftClarity combined \<and>
     searchConsole (analytics r) = checkSearchConsole html \<and>
     seoPlugin (analytics r) = checkSEOPlugins html \<and>
     bingWebmaster (analytics r) = checkBingWebmaster html \<and>
     crm (marketing r) = checkCRMPlatforms combined \<and>
     emailMarketing (marketing r) = checkEmailMarketingTools combined \<and>
     adPlatforms (marketing r) = platforms a \<and>
     pixelIds (marketing r) = foundPixelIds a \<and>
     conversionTools (marketing r) = checkConversionOptimizationTools combined \<and>
     widgets (marketing r) = checkWidgets combined \<and>
     cms (infrastructure r) = checkCMS combined html \<and>
     ecommerce (infrastructure r) = checkEcommercePlatforms combined html \<and>
     cdn (infrastructure r) = checkCDNProviders combined headers \<and>
     hosting (infrastructure r) = detectHostingFromHeaders headers domain \<and>
     hasSchema (seo r) = schemaFound sc \<and> schemaTypes (seo r) = types sc \<and>
     metaTags (seo r) = extractImportantMetaTags html \<and>
     summary r = calculateSummary (result.truncate r)"
proof -
  obtain combined where c: "combinedCorpus html = Some combined" using combinedCorpus_total by blast
  obtain g where g: "checkGA4 combined = Some g" using checkGA4_total by blast
  obtain t where t: "checkGTM combined = Some t" using checkGTM_total by blast
  obtain a where a: "checkAdPlatforms combined = Some a" using checkAdPlatforms_total by blast
  obtain sc where sc: "extractJSONLDSchema parse html = Some sc" using extractJSONLDSchema_total by blast
  note d = runDetectors_eq[OF c g t a sc, of headers]
  show ?thesis
    using c g t a sc analyzeWebsite_eq[OF d, of domain]
    by (simp add: result.truncate_def)
qed

section \<open>The summary (\<^verbatim>\<open>calculateSummary\<close>)\<close>

text \<open>
  C1, as the code has it. For every result object the four group counts are: the number
  of the six analytics checks whose \<^verbatim>\<open>found\<close> is true; the sum of the lengths of the
  CRM, e-mail, ad-platform, conversion-tool and widget lists; the length of the CMS list
  plus 1 if the e-commerce field is truthy (a non-empty platform name) plus the length
  of the CDN list; and 1 if structured data was found plus 1 if the meta description is
  truthy, that is present and not the empty string. \<^verbatim>\<open>totalToolsFound\<close> is the sum of
  the four. The pixel identifiers, the hosting label and the canonical and robots values
  do not enter the summary.
\<close>

theorem calculateSummary_counts:
  "analyticsCount (categories (calculateSummary r)) =
     sum_list (map (\<lambda>b. if b then 1 else 0)
       [ga4Found (ga4 (analytics r)), gtmFound (gtm (analytics r)),
        clarityFound (microsoftClarity (analytics r)),
        verificationFound (searchConsole (analytics r)),
        pluginsFound (seoPlugin (analytics r)),
        verificationFound (bingWebmaster (analytics r))]) \<and>
   marketingCount (categories (calculateSummary r)) =
     length (crm (marketing r)) + length (emailMarketing (marketing r)) +
     length (adPlatforms (marketing r)) + length (conversionTools (marketing r)) +
     length (widgets (marketing r)) \<and>
   infrastructureCount (categories (calculateSummary r)) =
     length (cms (infrastructure r)) +
     (if truthy (ecommerce (infrastructure r)) then 1 else 0) +
     length (cdn (infrastructure r)) \<and>
   seoCount (categories (calculateSummary r)) =
     (if hasSchema (seo r) then 1 else 0) +
     (if truthy (description (basic (metaTags (seo r)))) then 1 else 0) \<and>
   totalToolsFound (calculateSummary r) =
     analyticsCount (categories (calculateSummary r)) +
     marketingCount (categories (calculateSummary r)) +
     infrastructureCount (categories (calculateSummary r)) +
     seoCount (categories (calculateSummary r)) \<and>
   calculateSummary (r\<lparr>marketing := (marketing r)\<lparr>pixelIds := ids\<rparr>\<rparr>) = calculateSummary r \<and>
   calculateSummary (r\<lparr>infrastructure := (infrastructure r)\<lparr>hosting := h\<rparr>\<rparr>) = calculateSummary r \<and>
   calculateSummary (r\<lparr>seo := (seo r)\<lparr>seoCanonical := c, seoRobots := b\<rparr>\<rparr>) = calculateSummary r \<and>
   calculateSummary (r\<lparr>seo := (seo r)\<lparr>metaTags :=
       \<lparr>basic = (basic (metaTags (seo r)))\<lparr>robots := b', canonical := c'\<rparr>\<rparr>\<rparr>\<rparr>) = calculateSummary r"
  by (simp add: calculateSummary_def Let_def)

text \<open>
  C1 as stated fails where the meta description is present and empty: the page
  \<^verbatim>\<open><meta name="description" content="">\<close> has a description, the empty string, and
  its SEO count is 0.
\<close>

theorem calculateSummary_empty_description:
  \<open>map_option (description \<circ> basic \<circ> metaTags \<circ> seo)
     (analyzeWebsite Map.empty ''<meta name="description" content="">'' [] [] None) = Some (Some []) \<and>
   map_option (hasSchema \<circ> seo)
     (analyzeWebsite Map.empty ''<meta name="description" content="">'' [] [] None) = Some False \<and>
   map_option (seoCount \<circ> categories \<circ> summary)
     (analyzeWebsite Map.empty ''<meta name="description" content="">'' [] [] None) = Some 0\<close>
proof -
  let ?page = \<open>''<meta name="description" content="">''\<close>
  have m: "extractImportantMetaTags ?page =
      \<lparr>basic = \<lparr>description = Some [], robots = None, canonical = None\<rparr>\<rparr>"
    by code_simp
  have s: "extractJSONLDSchema Map.empty ?page = Some \<lparr>schemaFound = False, types = []\<rparr>"
    by code_simp
  from analyzeWebsite_fields[of ?page Map.empty "[]" "[]"] obtain r where
    r: "analyzeWebsite Map.empty ?page [] [] None = Some r"
    and f: "hasSchema (seo r) = False" "metaTags (seo r) = extractImportantMetaTags ?page"
           "summary r = calculateSummary (result.truncate r)"
    using s by auto
  show ?thesis
    using r f m by (simp add: calculateSummary_def Let_def truthy_def result.truncate_def)
qed

section \<open>GA4 presence and identifiers (\<^verbatim>\<open>checkGA4\<close>)\<close>

text \<open>
  C10. \<^verbatim>\<open>found\<close> does not imply a non-empty identifier list: in the corpus
  \<^verbatim>\<open>xG-ABCDEFGH12x\<close> the identifier is inside a longer token, the unbounded presence
  test finds it and the bounded extractor finds nothing. The same holds for the page
  with that text, whatever \<^verbatim>\<open>JSON.parse\<close> does.
\<close>

theorem ga4_found_without_ids:
  "checkGA4 ''xG-ABCDEFGH12x'' = Some \<lparr>ga4Found = True, measurementIds = []\<rparr> \<and>
   map_option (ga4 \<circ> analytics) (analyzeWebsite parse ''xG-ABCDEFGH12x'' [] [] None)
     = Some \<lparr>ga4Found = True, measurementIds = []\<rparr>"
proof -
  have c: "combinedCorpus ''xG-ABCDEFGH12x'' = Some ''xG-ABCDEFGH12x ''" by code_simp
  have g: "checkGA4 ''xG-ABCDEFGH12x '' = Some \<lparr>ga4Found = True, measurementIds = []\<rparr>" by code_simp
  have g': "checkGA4 ''xG-ABCDEFGH12x'' = Some \<lparr>ga4Found = True, measurementIds = []\<rparr>" by code_simp
  from analyzeWebsite_fields[of "''xG-ABCDEFGH12x''" parse "[]" "[]"] c g
  obtain r where "analyzeWebsite parse ''xG-ABCDEFGH12x'' [] [] None = Some r"
    "ga4 (analytics r) = \<lparr>ga4Found = True, measurementIds = []\<rparr>" by auto
  with g' show ?thesis by simp
qed

section \<open>Hosting detection (\<^verbatim>\<open>detectHostingFromHeaders\<close>)\<close>

text \<open>
  C2, as the code has it. For every header mapping the hosting label is the label of
  the first rule of the decision list that holds (the \<^verbatim>\<open>cf-ray\<close> marker, the
  \<^verbatim>\<open>x-vercel-id\<close> deployment id, the \<^verbatim>\<open>x-nf-request-id\<close> and \<^verbatim>\<open>x-github-request\<close>
  static-host markers, then \<^verbatim>\<open>nginx\<close> and \<^verbatim>\<open>apache\<close> in the lower-cased server banner),
  and \<^verbatim>\<open>Unknown\<close> when none holds. Headers with a non-empty \<^verbatim>\<open>cf-ray\<close> value yield
  \<^verbatim>\<open>Cloudflare\<close>, and the empty mapping yields \<^verbatim>\<open>Unknown\<close>.
\<close>

theorem detectHostingFromHeaders_decision_list:
  "detectHostingFromHeaders h domain = firstLabel hostingRules h \<and>
   (truthy (map_of h ''cf-ray'') \<longrightarrow> detectHostingFromHeaders h domain = ''Cloudflare'') \<and>
   ((\<forall>(holds, label) \<in> set hostingRules. \<not> holds h) \<longrightarrow>
      detectHostingFromHeaders h domain = ''Unknown'') \<and>
   detectHostingFromHeaders [] domain = ''Unknown''"
  by (simp add: detectHostingFromHeaders_def hostingRules_def Let_def truthy_def orEmpty_def
      toLowerCase_def)

theorem detectHostingFromHeaders_witness:
  "truthy (map_of [(''cf-ray'', ''abc123'')] ''cf-ray'') \<and>
   detectHostingFromHeaders [(''cf-ray'', ''abc123'')] ''example.com'' = ''Cloudflare'' \<and>
   detectHostingFromHeaders [(''server'', ''Apache/2.4.57 (Unix)''), (''x-vercel-id'', [])] ''example.com'' = ''Apache'' \<and>
   list_all (\<lambda>(holds, label). \<not> holds [(''server'', ''cloudflare'')]) hostingRules \<and>
   detectHostingFromHeaders [(''server'', ''cloudflare'')] ''example.com'' = ''Unknown''"
proof -
  have a: "truthy (map_of [(''cf-ray'', ''abc123'')] ''cf-ray'')" by (simp add: truthy_def)
  have b: "firstLabel hostingRules [(''server'', ''Apache/2.4.57 (Unix)''), (''x-vercel-id'', [])] = ''Apache''"
    by code_simp
  have c: "list_all (\<lambda>(holds, label). \<not> holds [(''server'', ''cloudflare'')]) hostingRules"
    by code_simp
  then have c': "\<forall>(holds, label) \<in> set hostingRules. \<not> holds [(''server'', ''cloudflare'')]"
    by (simp add: list_all_iff)
  have 1: "detectHostingFromHeaders [(''cf-ray'', ''abc123'')] ''example.com'' = ''Cloudflare''"
    using a detectHostingFromHeaders_decision_list[of "[(''cf-ray'', ''abc123'')]" "''example.com''"]
    by blast
  have 2: "detectHostingFromHeaders [(''server'', ''Apache/2.4.57 (Unix)''), (''x-vercel-id'', [])] ''example.com'' = ''Apache''"
    using b detectHostingFromHeaders_decision_list[of "[(''server'', ''Apache/2.4.57 (Unix)''), (''x-vercel-id'', [])]" "''example.com''"]
    by metis
  have 3: "detectHostingFromHeaders [(''server'', ''cloudflare'')] ''example.com'' = ''Unknown''"
    using c' detectHostingFromHeaders_decision_list[of "[(''server'', ''cloudflare'')]" "''example.com''"]
    by blast
  from a 1 2 c 3 show ?thesis by blast
qed

text \<open>
  C2 as stated fails for a header that is present with an empty value: the mapping
  \<^verbatim>\<open>{"cf-ray": ""}\<close> contains \<^verbatim>\<open>cf-ray\<close> and its hosting label is \<^verbatim>\<open>Unknown\<close>.
\<close>

theorem detectHostingFromHeaders_empty_cf_ray:
  "map_of [(''cf-ray'', [])] ''cf-ray'' = Some ([] :: string) \<and>
   detectHostingFromHeaders [(''cf-ray'', [])] ''example.com'' = ''Unknown''"
  by code_simp

section \<open>Identifier extraction (\<^verbatim>\<open>checkGA4\<close>)\<close>

text \<open>
  C4 says that every identifier flanked by boundaries is listed exactly once. The code
  does not do this at the corpus \<^verbatim>\<open>G-AAAAAAAA G-BBBBBBBB\<close>. Both identifiers are flanked
  (start of string and space, space and end of string), and each alone is extracted.
  Together, the match of the first consumes the space, the second has no boundary left
  before it, and it is not extracted: it occurs in the corpus and not in the list.
\<close>

theorem checkGA4_shared_boundary:
  "checkGA4 ''G-AAAAAAAA'' = Some \<lparr>ga4Found = True, measurementIds = [''G-AAAAAAAA'']\<rparr> \<and>
   checkGA4 ''G-BBBBBBBB'' = Some \<lparr>ga4Found = True, measurementIds = [''G-BBBBBBBB'']\<rparr> \<and>
   checkGA4 ''G-AAAAAAAA G-BBBBBBBB'' = Some \<lparr>ga4Found = True, measurementIds = [''G-AAAAAAAA'']\<rparr> \<and>
   map_option (ga4 \<circ> analytics) (analyzeWebsite parse ''G-AAAAAAAA G-BBBBBBBB'' [] [] None)
     = Some \<lparr>ga4Found = True, measurementIds = [''G-AAAAAAAA'']\<rparr>"
proof -
  have a: "checkGA4 ''G-AAAAAAAA'' = Some \<lparr>ga4Found = True, measurementIds = [''G-AAAAAAAA'']\<rparr>"
    by code_simp
  have b: "checkGA4 ''G-BBBBBBBB'' = Some \<lparr>ga4Found = True, measurementIds = [''G-BBBBBBBB'']\<rparr>"
    by code_simp
  have ab: "checkGA4 ''G-AAAAAAAA G-BBBBBBBB'' = Some \<lparr>ga4Found = True, measurementIds = [''G-AAAAAAAA'']\<rparr>"
    by code_simp
  have c: "combinedCorpus ''G-AAAAAAAA G-BBBBBBBB'' = Some ''G-AAAAAAAA G-BBBBBBBB ''"
    by code_simp
  have g: "checkGA4 ''G-AAAAAAAA G-BBBBBBBB '' = Some \<lparr>ga4Found = True, measurementIds = [''G-AAAAAAAA'']\<rparr>"
    by code_simp
  from analyzeWebsite_fields[of "''G-AAAAAAAA G-BBBBBBBB''" parse "[]" "[]"] c g
  obtain r where "analyzeWebsite parse ''G-AAAAAAAA G-BBBBBBBB'' [] [] None = Some r"
    "ga4 (analytics r) = \<lparr>ga4Found = True, measurementIds = [''G-AAAAAAAA'']\<rparr>" by auto
  with a b ab show ?thesis by simp
qed

text \<open>The scenario of the specification holds: one identifier, repeated in the corpus,
  is listed once.\<close>

lemma checkGA4_scenario:
  "combinedCorpus ''<script>gtag('config','G-ABC12345X')</script>''
     = Some ''<script>gtag('config','G-ABC12345X')</script>  gtag('config','G-ABC12345X') '' \<and>
   checkGA4 ''<script>gtag('config','G-ABC12345X')</script>  gtag('config','G-ABC12345X') ''
     = Some \<lparr>ga4Found = True, measurementIds = [''G-ABC12345X'']\<rparr>"
  by code_simp

text \<open>The identifier list never holds an identifier twice.\<close>

lemma pushNew_distinct: "distinct ids \<Longrightarrow> distinct (pushNew m ids)"
  by (simp add: pushNew_def)

lemma foldl_pushNew_distinct: "distinct ids \<Longrightarrow> distinct (foldl (\<lambda>a m. pushNew m a) ids ms)"
  by (induction ms arbitrary: ids) (simp_all add: pushNew_distinct)

lemma checkGA4_distinct:
  assumes "checkGA4 content = Some g"
  shows "distinct (measurementIds g)"
proof -
  from assms obtain ids where i: "execLoop True ga4IdPattern content pushNew 0 [] = Some ids"
    and m: "measurementIds g = ids"
    by (auto simp: checkGA4_def Let_def split: bind_splits)
  from i obtain caps where "ids = foldl (\<lambda>a m. pushNew m a) [] caps"
    using execLoop_fold[of True ga4IdPattern content pushNew 0 "[]"] by auto
  with m show ?thesis by (simp add: foldl_pushNew_distinct)
qed

section \<open>Merging the enhanced data (\<^verbatim>\<open>analyzeWebsite\<close>)\<close>

text \<open>
  C5 says that merging a payload twice is merging it once, an identifier being appended
  only if the list does not hold it. The code does not do this at the payload
  \<^verbatim>\<open>{pixelIds: {Facebook: ["123"]}}\<close>. The merge appends \<^verbatim>\<open>Facebook: 123\<close> to the
  identifier list whether or not the list holds it, so a baseline list that holds it
  ends with a duplicate, and merging the payload twice appends it twice.
\<close>

theorem mergeEnhanced_duplicates_pixelIds:
  "pixelIds (marketing (mergeEnhanced
      \<lparr>enhPixels = None, enhPixelIds = Some [(''Facebook'', Some [''123''])]\<rparr> r))
     = pixelIds (marketing r) @ [''Facebook: 123''] \<and>
   pixelIds (marketing (mergeEnhanced
      \<lparr>enhPixels = None, enhPixelIds = Some [(''Facebook'', Some [''123''])]\<rparr>
      (mergeEnhanced \<lparr>enhPixels = None, enhPixelIds = Some [(''Facebook'', Some [''123''])]\<rparr> r)))
     = pixelIds (marketing r) @ [''Facebook: 123'', ''Facebook: 123'']"
  by (simp add: mergeEnhanced_def mergePixelIds_def Let_def)

text \<open>The platform names, merged a few lines above in the same block, are checked
  against the list: merging them twice is merging them once.\<close>

lemma mergePixels_unchanged:
  "\<forall>(platform, found) \<in> set entries. found \<longrightarrow> platform \<in> set list \<Longrightarrow> mergePixels entries list = list"
  unfolding mergePixels_def by (induction entries arbitrary: list) auto

lemma mergePixels_subset: "set list \<subseteq> set (mergePixels entries list)"
proof (induction entries arbitrary: list)
  case Nil
  then show ?case by (simp add: mergePixels_def)
next
  case (Cons e entries)
  obtain p f where e: "e = (p, f)" by (cases e)
  let ?l = "if f \<and> p \<notin> set list then list @ [p] else list"
  have "set list \<subseteq> set ?l" by auto
  also have "\<dots> \<subseteq> set (mergePixels entries ?l)" by (rule Cons.IH)
  finally show ?case using e by (simp add: mergePixels_def)
qed

lemma mergePixels_holds_found:
  "(platform, True) \<in> set entries \<Longrightarrow> platform \<in> set (mergePixels entries list)"
  unfolding mergePixels_def
proof (induction entries arbitrary: list)
  case Nil
  then show ?case by simp
next
  case (Cons e entries)
  obtain p f where e: "e = (p, f)" by (cases e)
  let ?l = "if f \<and> p \<notin> set list then list @ [p] else list"
  show ?case
  proof (cases "(platform, True) = e")
    case True
    then have "platform \<in> set ?l" using e by auto
    then show ?thesis using mergePixels_subset[of ?l entries] e
      by (auto simp: mergePixels_def)
  next
    case False
    with Cons.prems have "(platform, True) \<in> set entries" by auto
    from Cons.IH[OF this, of ?l] show ?thesis using e by simp
  qed
qed

lemma mergePixels_idempotent:
  "mergePixels entries (mergePixels entries list) = mergePixels entries list"
  by (rule mergePixels_unchanged) (auto intro: mergePixels_holds_found)

section \<open>Letter case (\<^verbatim>\<open>checkGA4\<close>, \<^verbatim>\<open>checkGTM\<close>, \<^verbatim>\<open>checkMicrosoftClarity\<close>)\<close>

text \<open>Under the \<^verbatim>\<open>i\<close> flag a match does not depend on the letter case of the input.\<close>

lemma toUpperCase_map: "toUpperCase s = map upperChar s"
  by (simp add: toUpperCase_def)

lemma of_char_upperChar: "of_char (upperChar c) = upperCode (of_char c)"
proof -
  have "(of_char c :: nat) - 32 < 256" using nat_of_char_less_256[of c] by arith
  then show ?thesis by (simp add: upperChar_def upperCode_def)
qed

lemma upperCode_cases:
  assumes "isLower k"
  shows "upperCode k = k - 32 \<and> lowerCode k = k \<and> upperCode (k - 32) = k - 32 \<and> lowerCode (k - 32) = k"
proof -
  from assms have r: "(97 \<le> k \<and> k \<le> 122) \<or> (224 \<le> k \<and> k \<le> 254 \<and> k \<noteq> 247)"
    by (simp add: isLower_def)
  then have 1: "\<not> isUpper k" unfolding isUpper_def by arith
  from r have 2: "isUpper (k - 32)" unfolding isUpper_def by arith
  from r have 3: "\<not> isLower (k - 32)" unfolding isLower_def by arith
  from r have 4: "k - 32 + 32 = k" by arith
  from assms 1 2 3 4 show ?thesis by (simp add: upperCode_def lowerCode_def)
qed

lemma atomMatch_upperChar: "atomMatch True a (upperChar c) = atomMatch True a c"
proof (cases "isLower (of_char c)")
  case True
  from upperCode_cases[OF True] show ?thesis
    by (auto simp: atomMatch_def of_char_upperChar Let_def)
next
  case False
  then show ?thesis by (simp add: upperChar_def)
qed

lemma classMatch_upperChar: "classMatch True cl (upperChar c) = classMatch True cl c"
  by (cases cl) (simp_all add: atomMatch_upperChar list_ex_iff)

abbreviation upperState :: "mstate \<Rightarrow> mstate" where
  "upperState \<equiv> (\<lambda>(e, t). (e, toUpperCase t))"

lemma litMatch_upper:
  "litMatch True l (n, toUpperCase s) = map upperState (litMatch True l (n, s))"
  by (induction True l "(n, s)" arbitrary: n s rule: litMatch.induct)
     (simp_all add: toUpperCase_map atomMatch_upperChar)

lemma repMatch_upper:
  "repMatch True cl lo hi g (n, toUpperCase s) = map upperState (repMatch True cl lo hi g (n, s))"
proof (induction True cl lo hi g "(n, s)" arbitrary: n s rule: repMatch.induct)
  case (1 cl lo hi greedy n)
  then show ?case by (simp add: toUpperCase_map)
next
  case (2 cl lo hi greedy n c cs)
  show ?case
  proof (cases "hi \<noteq> Some 0 \<and> classMatch True cl c")
    case True
    with 2 show ?thesis
      by (simp add: toUpperCase_map classMatch_upperChar Let_def)
  next
    case False
    then show ?thesis
      by (auto simp: toUpperCase_map classMatch_upperChar Let_def)
  qed
qed

lemma matches_upper:
  "matches True r (n, toUpperCase s) = map upperState (matches True r (n, s))"
proof (induction r arbitrary: n s)
  case (Lit l)
  then show ?case by (simp add: litMatch_upper)
next
  case (Cls cl)
  then show ?case by (cases s) (simp_all add: toUpperCase_map classMatch_upperChar)
next
  case (Rep cl lo hi g)
  then show ?case by (simp add: repMatch_upper)
next
  case Bol
  then show ?case by simp
next
  case Eol
  then show ?case by (simp add: toUpperCase_map)
next
  case (Seq r1 r2)
  have "concat (map (matches True r2) (map upperState xs))
      = map upperState (concat (map (matches True r2) xs))" for xs
    by (induction xs) (auto simp: Seq.IH(2))
  then show ?case by (simp add: Seq.IH(1))
next
  case (Alt r1 r2)
  then show ?case by simp
qed

lemma testFrom_upper: "testFrom True r (n, toUpperCase s) = testFrom True r (n, s)"
proof (induction s arbitrary: n)
  case Nil
  then show ?case using matches_upper[of r n "[]"] by (simp add: toUpperCase_map)
next
  case (Cons c s)
  have "toUpperCase (c # s) = upperChar c # toUpperCase s" by (simp add: toUpperCase_map)
  moreover have "(matches True r (n, toUpperCase (c # s)) \<noteq> []) = (matches True r (n, c # s) \<noteq> [])"
    by (simp add: matches_upper)
  ultimately show ?case using Cons.IH[of "Suc n"] by simp
qed

lemma test_upper: "test True r (toUpperCase s) = test True r s"
  by (simp add: test_def testFrom_upper)

lemma test_same_letters:
  "toUpperCase s = toUpperCase s' \<Longrightarrow> test True r s = test True r s'"
  by (metis test_upper)


lemma toUpperCase_take: "toUpperCase (take k s) = take k (toUpperCase s)"
  by (simp add: toUpperCase_map take_map)

lemma matchAt_upper:
  "matchAt True p (n, toUpperCase s) = map upperState (matchAt True p (n, s))"
proof (cases p)
  case (Group pre g post)
  have post: "concat (map ((\<lambda>(n2, s2). map (\<lambda>(e, s3). (e, take (n2 - n1) (toUpperCase s1))) (matches True post (n2, s2)))
                \<circ> upperState) xs)
      = map upperState (concat (map (\<lambda>(n2, s2). map (\<lambda>(e, s3). (e, take (n2 - n1) s1)) (matches True post (n2, s2))) xs))"
    for n1 s1 xs
    by (induction xs) (auto simp: matches_upper toUpperCase_take)
  have pre: "concat (map ((\<lambda>(n1, s1). concat (map (\<lambda>(n2, s2).
                 map (\<lambda>(e, s3). (e, take (n2 - n1) s1)) (matches True post (n2, s2)))
               (matches True g (n1, s1)))) \<circ> upperState) ys)
      = map upperState (concat (map (\<lambda>(n1, s1). concat (map (\<lambda>(n2, s2).
                 map (\<lambda>(e, s3). (e, take (n2 - n1) s1)) (matches True post (n2, s2)))
               (matches True g (n1, s1)))) ys))"
    for ys
    by (induction ys) (auto simp: matches_upper post)
  show ?thesis using Group pre by (simp add: matches_upper)
qed

lemma search_upper:
  "search True p (n, toUpperCase s) = map_option upperState (search True p (n, s))"
proof (induction s arbitrary: n)
  case Nil
  have "matchAt True p (n, []) = map upperState (matchAt True p (n, []))"
    using matchAt_upper[of p n "[]"] by (simp add: toUpperCase_map)
  then show ?case
    by (cases "matchAt True p (n, [])") (auto simp: toUpperCase_map simp del: matchAt.simps)
next
  case (Cons c s)
  have u: "toUpperCase (c # s) = upperChar c # toUpperCase s" by (simp add: toUpperCase_map)
  show ?case
  proof (cases "matchAt True p (n, c # s)")
    case Nil
    then have "matchAt True p (n, upperChar c # toUpperCase s) = []"
      using matchAt_upper[of p n "c # s"] u by simp
    with Nil Cons.IH[of "Suc n"] u show ?thesis by (simp del: matchAt.simps)
  next
    case (Cons r rs)
    then have "matchAt True p (n, upperChar c # toUpperCase s) = upperState r # map upperState rs"
      using matchAt_upper[of p n "c # s"] u by simp
    with Cons u show ?thesis by (simp del: matchAt.simps)
  qed
qed

lemma match1_upper: "match1 True p (toUpperCase s) = map_option toUpperCase (match1 True p s)"
  by (cases "search True p (0, s)") (auto simp: match1_def search_upper)

lemma match1_found_upper: "(match1 True p (toUpperCase s) \<noteq> None) = (match1 True p s \<noteq> None)"
  by (simp add: match1_upper)

lemma match1_found_same_letters:
  "toUpperCase s = toUpperCase s' \<Longrightarrow> (match1 True p s \<noteq> None) = (match1 True p s' \<noteq> None)"
  by (metis match1_found_upper)

lemma toUpperCase_append: "toUpperCase (s @ t) = toUpperCase s @ toUpperCase t"
  by (simp add: toUpperCase_map)

lemma checkAdPlatforms_platforms:
  "\<exists>a. checkAdPlatforms content = Some a \<and> platforms a =
     pushIf (test True (alts [Lit ''reddit.com/pixel'', seqs [Lit ''rdt'', spaces, Lit ''('']]) content) ''Reddit Pixel''
     (pushIf (test True (alts [Lit ''sc-static.net'', Lit ''snaptr'']) content) ''Snapchat Pixel''
     (pushIf (test True (alts [Lit ''pintrk'', Lit ''ct.pinterest.com'']) content) ''Pinterest Tag''
     (pushIf (test True (alts [Lit ''static.ads-twitter.com'', seqs [Lit ''twq'', spaces, Lit ''('']]) content) ''Twitter/X Pixel''
     (pushIf (test True (alts [Lit ''analytics.tiktok.com'', Lit ''ttq.load'']) content) ''TikTok Pixel''
     (pushIf (test True (alts [Lit ''snap.licdn.com'', Lit ''linkedin.com/px'']) content) ''LinkedIn Insight Tag''
     (pushIf (test True (alts [Lit ''facebook.com/tr'', Lit ''fbevents.js'', seqs [Lit ''fbq'', spaces, Lit ''('']]) content) ''Facebook/Meta Pixel''
     (pushIf (test True (alts [Lit ''googleadservices.com'', Lit ''google_conversion'']) content) ''Google Ads'' [])))))))"
  using execLoop_total[of fbPattern True content "\<lambda>m pixelIds. pixelIds @ [''Facebook: '' @ m]" 0 "[]"]
  by (auto simp: checkAdPlatforms_def Let_def)

text \<open>
  Every rule with the \<^verbatim>\<open>i\<close> flag gives the same answer on two corpora (and pages) that
  differ in letter case only.
\<close>

lemma ci_rules_ignore_letter_case:
  assumes c: "toUpperCase combined = toUpperCase combined'"
      and h: "toUpperCase html = toUpperCase html'"
  shows "checkCRMPlatforms combined = checkCRMPlatforms combined'"
    and "checkEmailMarketingTools combined = checkEmailMarketingTools combined'"
    and "map_option platforms (checkAdPlatforms combined) = map_option platforms (checkAdPlatforms combined')"
    and "checkConversionOptimizationTools combined = checkConversionOptimizationTools combined'"
    and "checkWidgets combined = checkWidgets combined'"
    and "checkCMS combined html = checkCMS combined' html'"
    and "checkEcommercePlatforms combined html = checkEcommercePlatforms combined' html'"
    and "checkCDNProviders combined headers = checkCDNProviders combined' headers"
    and "checkSEOPlugins html = checkSEOPlugins html'"
    and "verificationFound (checkSearchConsole html) = verificationFound (checkSearchConsole html')"
    and "verificationFound (checkBingWebmaster html) = verificationFound (checkBingWebmaster html')"
proof -
  have t: "test True r combined = test True r combined'" for r
    using c by (rule test_same_letters)
  have th: "test True r html = test True r html'" for r
    using h by (rule test_same_letters)
  have tc: "test True r (combined @ x) = test True r (combined' @ x)" for r x
    by (rule test_same_letters) (simp add: toUpperCase_append c)
  have m: "(match1 True p html \<noteq> None) = (match1 True p html' \<noteq> None)" for p
    using h by (rule match1_found_same_letters)
  show "checkCRMPlatforms combined = checkCRMPlatforms combined'"
    by (simp add: checkCRMPlatforms_def t)
  show "checkEmailMarketingTools combined = checkEmailMarketingTools combined'"
    by (simp add: checkEmailMarketingTools_def t)
  show "map_option platforms (checkAdPlatforms combined) = map_option platforms (checkAdPlatforms combined')"
    using checkAdPlatforms_platforms[of combined] checkAdPlatforms_platforms[of combined']
    by (auto simp: t)
  show "checkConversionOptimizationTools combined = checkConversionOptimizationTools combined'"
    by (simp add: checkConversionOptimizationTools_def t)
  show "checkWidgets combined = checkWidgets combined'"
    by (simp add: checkWidgets_def t)
  show "checkCMS combined html = checkCMS combined' html'"
    by (simp add: checkCMS_def t th)
  show "checkEcommercePlatforms combined html = checkEcommercePlatforms combined' html'"
    by (simp add: checkEcommercePlatforms_def t)
  show "checkCDNProviders combined headers = checkCDNProviders combined' headers"
    by (simp add: checkCDNProviders_def Let_def tc)
  show "checkSEOPlugins html = checkSEOPlugins html'"
    by (simp add: checkSEOPlugins_def th)
  show "verificationFound (checkSearchConsole html) = verificationFound (checkSearchConsole html')"
    using m[of "metaPattern ''google-site-verification''"] by (simp add: checkSearchConsole_def Let_def)
  show "verificationFound (checkBingWebmaster html) = verificationFound (checkBingWebmaster html')"
    using m[of "metaPattern ''msvalidate.01''"] by (simp add: checkBingWebmaster_def Let_def)
qed

text \<open>
  C6 says that no rule's \<^verbatim>\<open>found\<close> depends on the letter case of the corpus, the
  presence tests of GA4, GTM and Clarity among them. The code does not do this at the
  corpus \<^verbatim>\<open>clarity.ms/tag/abcdef1\<close> and its upper-case form. Unlike every other rule,
  these three presence tests have no \<^verbatim>\<open>i\<close> flag: upper-casing the corpus turns
  \<^verbatim>\<open>found\<close> from true to false, while the Clarity project id, extracted with the
  \<^verbatim>\<open>i\<close> flag, is still found. In the same way the GA4 extractor lists a lower-case
  identifier that the presence test does not see.
\<close>

theorem presence_tests_case_sensitive:
  "toUpperCase ''clarity.ms/tag/abcdef1'' = ''CLARITY.MS/TAG/ABCDEF1'' \<and>
   checkMicrosoftClarity ''clarity.ms/tag/abcdef1''
     = \<lparr>clarityFound = True, projectId = Some ''abcdef1''\<rparr> \<and>
   checkMicrosoftClarity ''CLARITY.MS/TAG/ABCDEF1''
     = \<lparr>clarityFound = False, projectId = Some ''ABCDEF1''\<rparr> \<and>
   map_option gtmFound (checkGTM ''googletagmanager.com/gtm.js'') = Some True \<and>
   map_option gtmFound (checkGTM ''GOOGLETAGMANAGER.COM/GTM.JS'') = Some False \<and>
   map_option ga4Found (checkGA4 ''googletagmanager.com/gtag/js'') = Some True \<and>
   map_option ga4Found (checkGA4 ''GOOGLETAGMANAGER.COM/GTAG/JS'') = Some False \<and>
   checkGA4 ''('g-abcdefgh12')'' = Some \<lparr>ga4Found = False, measurementIds = [''g-abcdefgh12'']\<rparr>"
  by code_simp

section \<open>The corpus (\<^verbatim>\<open>extractScriptContents\<close>, \<^verbatim>\<open>runDetectors\<close>)\<close>

lemma foldl_script_bodies:
  "foldl (\<lambda>a m. a @ '' '' @ m @ '' '') acc bodies = acc @ concat (map (\<lambda>b. '' '' @ b @ '' '') bodies)"
  by (induction bodies arbitrary: acc) simp_all

lemma no_script_tag:
  "\<not> test True (Lit ''<script'') html \<Longrightarrow> allCaptures True scriptPattern html 0 = Some []"
  unfolding allCaptures_def scriptPattern_def test_def
  by (rule execLoop_None) (simp add: search_no_literal del: search.simps)




section \<open>CMS and e-commerce (\<^verbatim>\<open>checkCMS\<close>, \<^verbatim>\<open>checkEcommercePlatforms\<close>)\<close>

text \<open>
  C8, as the code has it. For every corpus that contains \<^verbatim>\<open>wp-content/\<close> the CMS list
  starts with \<^verbatim>\<open>WordPress\<close>, and it is \<^verbatim>\<open>["WordPress"]\<close> when no Webflow, Squarespace,
  Wix or Drupal marker occurs; for every corpus that contains \<^verbatim>\<open>cdn.shopify.com\<close> the
  e-commerce platform is \<^verbatim>\<open>Shopify\<close>. E-commerce detection is single-valued: the first
  matching rule in declaration order (Shopify, WooCommerce, Magento, BigCommerce) wins,
  and there is no platform when no rule matches.
\<close>

theorem cms_and_ecommerce:
  "(strIncludes combined ''wp-content/'' \<longrightarrow>
      (\<exists>others. checkCMS combined html = ''WordPress'' # others)) \<and>
   (strIncludes combined ''wp-content/'' \<and>
    \<not> test True (alts [Lit ''webflow.js'', Lit ''webflow.io'']) combined \<and>
    \<not> test True (alts [Lit ''squarespace.com'', Lit ''squarespace-cdn.com'']) combined \<and>
    \<not> test True (alts [Lit ''wix.com'', Lit ''wixstatic.com'']) combined \<and>
    \<not> test True (alts [Lit ''drupal-settings-json'', Lit ''drupalSettings'']) html \<longrightarrow>
      checkCMS combined html = [''WordPress'']) \<and>
   (strIncludes combined ''cdn.shopify.com'' \<longrightarrow>
      checkEcommercePlatforms combined html = Some ''Shopify'') \<and>
   checkEcommercePlatforms combined html = firstPlatform ecommerceRules combined \<and>
   (checkEcommercePlatforms combined html = None \<longleftrightarrow>
      list_all (\<lambda>(pattern, platform). \<not> test True pattern combined) ecommerceRules)"
proof -
  have wp: "strIncludes combined ''wp-content/'' \<Longrightarrow>
      test True (alts [Lit ''wp-content/'', Lit ''wp-includes/'']) combined"
    by (simp add: test_Alt strIncludes_test)
  have sh: "strIncludes combined ''cdn.shopify.com'' \<Longrightarrow>
      test True (alts [Lit ''cdn.shopify.com'', Lit ''myshopify.com'']) combined"
    by (simp add: test_Alt strIncludes_test)
  have 1: "strIncludes combined ''wp-content/'' \<longrightarrow>
      (\<exists>others. checkCMS combined html = ''WordPress'' # others)"
    using wp by (auto simp: checkCMS_def pushIf_def Let_def)
  have 2: "strIncludes combined ''wp-content/'' \<and>
    \<not> test True (alts [Lit ''webflow.js'', Lit ''webflow.io'']) combined \<and>
    \<not> test True (alts [Lit ''squarespace.com'', Lit ''squarespace-cdn.com'']) combined \<and>
    \<not> test True (alts [Lit ''wix.com'', Lit ''wixstatic.com'']) combined \<and>
    \<not> test True (alts [Lit ''drupal-settings-json'', Lit ''drupalSettings'']) html \<longrightarrow>
      checkCMS combined html = [''WordPress'']"
    using wp by (auto simp: checkCMS_def pushIf_def Let_def)
  have 3: "strIncludes combined ''cdn.shopify.com'' \<longrightarrow>
      checkEcommercePlatforms combined html = Some ''Shopify''"
    using sh by (auto simp: checkEcommercePlatforms_def)
  have 4: "checkEcommercePlatforms combined html = firstPlatform ecommerceRules combined"
    by (simp add: checkEcommercePlatforms_def ecommerceRules_def)
  have 5: "checkEcommercePlatforms combined html = None \<longleftrightarrow>
      list_all (\<lambda>(pattern, platform). \<not> test True pattern combined) ecommerceRules"
    by (simp add: checkEcommercePlatforms_def ecommerceRules_def)
  from 1 2 3 4 5 show ?thesis by blast
qed

theorem cms_and_ecommerce_witness:
  "combinedCorpus ''<link href='/wp-content/a.css'><script src='//cdn.shopify.com/s.js'></script>''
     = Some ''<link href='/wp-content/a.css'><script src='//cdn.shopify.com/s.js'></script>   '' \<and>
   strIncludes ''<link href='/wp-content/a.css'><script src='//cdn.shopify.com/s.js'></script>   '' ''wp-content/'' \<and>
   strIncludes ''<link href='/wp-content/a.css'><script src='//cdn.shopify.com/s.js'></script>   '' ''cdn.shopify.com'' \<and>
   checkCMS ''<link href='/wp-content/a.css'><script src='//cdn.shopify.com/s.js'></script>   ''
            ''<link href='/wp-content/a.css'><script src='//cdn.shopify.com/s.js'></script>'' = [''WordPress''] \<and>
   checkEcommercePlatforms ''<link href='/wp-content/a.css'><script src='//cdn.shopify.com/s.js'></script>   ''
            ''<link href='/wp-content/a.css'><script src='//cdn.shopify.com/s.js'></script>'' = Some ''Shopify'' \<and>
   list_all (\<lambda>(pattern, platform). \<not> test True pattern ''<p>Hi</p> '') ecommerceRules \<and>
   checkEcommercePlatforms ''<p>Hi</p> '' ''<p>Hi</p>'' = None"
proof -
  let ?h = "''<link href='/wp-content/a.css'><script src='//cdn.shopify.com/s.js'></script>''"
  let ?c = "''<link href='/wp-content/a.css'><script src='//cdn.shopify.com/s.js'></script>   ''"
  have c: "combinedCorpus ?h = Some ?c" by code_simp
  have a: "strIncludes ?c ''wp-content/''" by code_simp
  have b: "strIncludes ?c ''cdn.shopify.com''" by code_simp
  have n1: "\<not> test True (alts [Lit ''webflow.js'', Lit ''webflow.io'']) ?c" by code_simp
  have n2: "\<not> test True (alts [Lit ''squarespace.com'', Lit ''squarespace-cdn.com'']) ?c" by code_simp
  have n3: "\<not> test True (alts [Lit ''wix.com'', Lit ''wixstatic.com'']) ?c" by code_simp
  have n4: "\<not> test True (alts [Lit ''drupal-settings-json'', Lit ''drupalSettings'']) ?h" by code_simp
  have e: "list_all (\<lambda>(pattern, platform). \<not> test True pattern ''<p>Hi</p> '') ecommerceRules"
    by code_simp
  from a n1 n2 n3 n4 cms_and_ecommerce[of ?c ?h] have 1: "checkCMS ?c ?h = [''WordPress'']" by blast
  from b cms_and_ecommerce[of ?c ?h] have 2: "checkEcommercePlatforms ?c ?h = Some ''Shopify''" by blast
  from e cms_and_ecommerce[of "''<p>Hi</p> ''" "''<p>Hi</p>''"]
  have 3: "checkEcommercePlatforms ''<p>Hi</p> '' ''<p>Hi</p>'' = None" by blast
  from c a b 1 2 e 3 show ?thesis by blast
qed

text \<open>
  C8 as stated fails for a corpus that holds a second CMS marker: with \<^verbatim>\<open>wp-content/\<close>,
  \<^verbatim>\<open>cdn.shopify.com\<close> and \<^verbatim>\<open>wix.com\<close> the CMS list is \<^verbatim>\<open>["WordPress", "Wix"]\<close>.
\<close>

theorem checkCMS_two_markers:
  "strIncludes ''wp-content/ cdn.shopify.com wix.com '' ''wp-content/'' \<and>
   strIncludes ''wp-content/ cdn.shopify.com wix.com '' ''cdn.shopify.com'' \<and>
   combinedCorpus ''wp-content/ cdn.shopify.com wix.com'' = Some ''wp-content/ cdn.shopify.com wix.com '' \<and>
   checkCMS ''wp-content/ cdn.shopify.com wix.com '' ''wp-content/ cdn.shopify.com wix.com''
     = [''WordPress'', ''Wix'']"
  by code_simp

section \<open>Structured data (\<^verbatim>\<open>extractJSONLDSchema\<close>)\<close>

subsection \<open>Characters and words under the \<^verbatim>\<open>i\<close> flag\<close>

lemma space_no_letter: "isSpace k \<Longrightarrow> \<not> isUpper k \<and> \<not> isLower k"
  by (auto simp: isSpace_def isUpper_def isLower_def)

lemma upper_lower_code: "isUpper k \<Longrightarrow> isLower (k + 32) \<and> \<not> isLower k \<and> k + 32 < 256"
  unfolding isUpper_def isLower_def by arith

lemma lower_upper_code: "isLower k \<Longrightarrow> isUpper (k - 32) \<and> \<not> isUpper k"
  unfolding isUpper_def isLower_def by arith

lemma code_not_space: "\<not> isSpace k \<Longrightarrow> \<not> isSpace (upperCode k) \<and> \<not> isSpace (lowerCode k)"
  using space_no_letter[of "k + 32"] space_no_letter[of "k - 32"] upper_lower_code[of k] lower_upper_code[of k]
  by (auto simp: upperCode_def lowerCode_def)

lemma lowerChar_code: "of_char (lowerChar c) = lowerCode (of_char c)"
  using upper_lower_code[of "of_char c"] by (auto simp: lowerChar_def lowerCode_def)

lemma lowerChar_eq_code: "(lowerChar c = a) = (lowerCode (of_char c) = of_char a)"
  using lowerChar_code[of c] by (metis of_char_eq_iff)

lemma atomMatch_Chr_lower:
  assumes "\<not> isUpper (of_char a)"
  shows "atomMatch True (Chr a) c = (lowerChar c = a)"
proof -
  let ?k = "of_char c :: nat"
  let ?a = "of_char a :: nat"
  have "(?a = ?k \<or> ?a = upperCode ?k \<or> ?a = lowerCode ?k) = (lowerCode ?k = ?a)"
  proof (cases "isUpper ?k")
    case True
    with assms upper_lower_code[OF True] show ?thesis
      by (auto simp: upperCode_def lowerCode_def)
  next
    case False
    show ?thesis
    proof (cases "isLower ?k")
      case True
      with assms lower_upper_code[OF True] show ?thesis
        by (auto simp: upperCode_def lowerCode_def)
    next
      case l: False
      with False show ?thesis by (auto simp: upperCode_def lowerCode_def)
    qed
  qed
  then show ?thesis by (simp add: atomMatch_def lowerChar_eq_code)
qed

lemma lowerChar_no_letter:
  assumes "\<not> isUpper (of_char a)" "\<not> isLower (of_char a)"
  shows "(lowerChar c = a) = (c = a)"
proof -
  have "(lowerCode (of_char c) = (of_char a :: nat)) = ((of_char c :: nat) = of_char a)"
    using assms upper_lower_code[of "of_char c"] by (auto simp: lowerCode_def)
  then show ?thesis by (simp add: lowerChar_eq_code)
qed

lemma atomMatch_Space: "atomMatch True Space c = isSpace (of_char c)"
proof (cases "isSpace (of_char c)")
  case True
  then show ?thesis by (simp add: atomMatch_def)
next
  case False
  with code_not_space[OF False] show ?thesis by (simp add: atomMatch_def)
qed

lemma atomMatch_NonSpace: "atomMatch ci NonSpace c \<or> atomMatch ci Space c"
  by (cases "isSpace (of_char c)") (simp_all add: atomMatch_def)

lemma atomMatch_mark:
  "\<not> isUpper (of_char a) \<Longrightarrow> \<not> isLower (of_char a) \<Longrightarrow> atomMatch True (Chr a) c = (c = a)"
  by (simp add: atomMatch_Chr_lower lowerChar_no_letter)

lemma atomMatch_marks:
  "atomMatch True (Chr dq) c = (c = dq)"
  "atomMatch True (Chr sq) c = (c = sq)"
  "atomMatch True (Chr (CHR ''>'')) c = (c = CHR ''>'')"
  "atomMatch True (Chr (CHR ''<'')) c = (c = CHR ''<'')"
  by (simp_all add: atomMatch_mark isUpper_def isLower_def)

lemma litMatch_lower:
  "\<forall>a\<in>set l. \<not> isUpper (of_char a) \<Longrightarrow>
     litMatch True l (n, s) =
       (if startsWith (toLowerCase s) l then [(n + length l, drop (length l) s)] else [])"
  by (induction True l "(n, s)" arbitrary: n s rule: litMatch.induct)
     (auto simp: toLowerCase_def atomMatch_Chr_lower)

lemma startsWith_append: "startsWith (l @ r) l"
  by (induction l) auto

lemma startsWith_length: "startsWith s l \<Longrightarrow> length l \<le> length s"
  by (induction s l rule: startsWith.induct) auto

lemma startsWith_take: "startsWith s l = (take (length l) s = l)"
  by (induction s l rule: startsWith.induct) auto

lemma litMatch_word:
  assumes "\<forall>a\<in>set l. \<not> isUpper (of_char a)" "toLowerCase x = l"
  shows "litMatch True l (n, x @ r) = [(n + length l, r)]"
proof -
  from assms(2) have len: "length x = length l" by (auto simp: toLowerCase_def)
  have "startsWith (toLowerCase (x @ r)) l"
    using assms(2) startsWith_append[of l "toLowerCase r"] by (simp add: toLowerCase_def)
  with len show ?thesis by (simp add: litMatch_lower[OF assms(1)])
qed

text \<open>Matcher states are suffixes of the input.\<close>

lemma drop_step: "Suc n \<le> e \<Longrightarrow> drop (e - n) (c # cs) = drop (e - Suc n) cs"
proof -
  assume "Suc n \<le> e"
  then have "e - n = Suc (e - Suc n)" by arith
  then show ?thesis by simp
qed

lemma litMatch_suffix:
  "(e, t) \<in> set (litMatch ci l (n, s)) \<Longrightarrow> n \<le> e \<and> t = drop (e - n) s"
  by (induction ci l "(n, s)" arbitrary: n s rule: litMatch.induct) (auto split: if_splits simp: drop_step)

lemma repMatch_suffix:
  "(e, t) \<in> set (repMatch ci cl lo hi g (n, s)) \<Longrightarrow> n \<le> e \<and> t = drop (e - n) s"
proof (induction ci cl lo hi g "(n, s)" arbitrary: n s rule: repMatch.induct)
  case (1 ci cl lo hi greedy n)
  then show ?case by (auto split: if_splits)
next
  case (2 ci cl lo hi greedy n c cs)
  show ?case
  proof (cases "hi = Some 0")
    case True
    with 2(2) show ?thesis by auto
  next
    case False
    from 2(2) False consider
      (more) "classMatch ci cl c" "(e, t) \<in> set (repMatch ci cl (lo - 1) (map_option (\<lambda>h. h - 1) hi) greedy (Suc n, cs))"
      | (stop) "lo = 0" "(e, t) = (n, c # cs)"
      by (auto simp: Let_def split: if_splits)
    then show ?thesis
    proof cases
      case more
      from 2(1)[OF False more] show ?thesis by (auto simp: drop_step)
    next
      case stop
      then show ?thesis by auto
    qed
  qed
qed

lemma matches_suffix:
  "(e, t) \<in> set (matches ci r (n, s)) \<Longrightarrow> n \<le> e \<and> t = drop (e - n) s"
proof (induction r arbitrary: n s e t)
  case (Lit l)
  then show ?case using litMatch_suffix by fastforce
next
  case (Cls cl)
  then show ?case by (cases s) (auto split: if_splits)
next
  case (Rep cl lo hi g)
  then show ?case using repMatch_suffix[of e t ci cl lo hi g n s] by simp
next
  case (Seq r1 r2)
  from Seq.prems obtain m u where a: "(m, u) \<in> set (matches ci r1 (n, s))"
    and b: "(e, t) \<in> set (matches ci r2 (m, u))" by auto
  from Seq.IH(1)[OF a] Seq.IH(2)[OF b] show ?case by auto
next
  case (Alt r1 r2)
  then show ?case by fastforce
qed (auto split: if_splits)

subsection \<open>Where a pattern can match\<close>

text \<open>A pattern that cannot consume the character \<open>x\<close> matches before the next \<open>x\<close>.\<close>

fun avoids :: "char \<Rightarrow> regex \<Rightarrow> bool" where
  "avoids x (Lit l) = (\<forall>a\<in>set l. \<not> atomMatch True (Chr a) x)"
| "avoids x (Cls cl) = (\<not> classMatch True cl x)"
| "avoids x (Rep cl lo hi g) = (\<not> classMatch True cl x)"
| "avoids x Bol = True"
| "avoids x Eol = True"
| "avoids x (Seq r1 r2) = (avoids x r1 \<and> avoids x r2)"
| "avoids x (Alt r1 r2) = (avoids x r1 \<and> avoids x r2)"

lemma litMatch_local:
  "\<forall>a\<in>set l. \<not> atomMatch True (Chr a) x \<Longrightarrow> (e, t) \<in> set (litMatch True l (n, u @ x # R)) \<Longrightarrow>
     \<exists>t'. t = t' @ x # R \<and> (e, t') \<in> set (litMatch True l (n, u))"
proof (induction l arbitrary: n u)
  case Nil
  then show ?case by simp
next
  case (Cons a l)
  show ?case
  proof (cases u)
    case Nil
    with Cons.prems show ?thesis by simp
  next
    case (Cons c cs)
    with Cons.prems Cons.IH[of "Suc n" cs] show ?thesis by (auto split: if_splits)
  qed
qed

lemma repMatch_local:
  "\<not> classMatch True cl x \<Longrightarrow> (e, t) \<in> set (repMatch True cl lo hi g (n, u @ x # R)) \<Longrightarrow>
     \<exists>t'. t = t' @ x # R \<and> (e, t') \<in> set (repMatch True cl lo hi g (n, u))"
proof (induction u arbitrary: n lo hi)
  case Nil
  then show ?case by (auto simp: Let_def split: if_splits)
next
  case (Cons c cs)
  show ?case
  proof (cases "hi = Some 0")
    case True
    with Cons.prems show ?thesis by auto
  next
    case False
    from Cons.prems(2) False consider
      (more) "classMatch True cl c" "(e, t) \<in> set (repMatch True cl (lo - 1) (map_option (\<lambda>h. h - 1) hi) g (Suc n, cs @ x # R))"
      | (stop) "lo = 0" "(e, t) = (n, c # cs @ x # R)"
      by (auto simp: Let_def split: if_splits)
    then show ?thesis
    proof cases
      case more
      from Cons.IH[OF Cons.prems(1) more(2)] obtain t' where
        "t = t' @ x # R" "(e, t') \<in> set (repMatch True cl (lo - 1) (map_option (\<lambda>h. h - 1) hi) g (Suc n, cs))"
        by blast
      with more(1) False show ?thesis by (auto simp: Let_def)
    next
      case stop
      with False show ?thesis by (auto simp: Let_def)
    qed
  qed
qed

lemma matches_local:
  "avoids x r \<Longrightarrow> (e, t) \<in> set (matches True r (n, u @ x # R)) \<Longrightarrow>
     \<exists>t'. t = t' @ x # R \<and> (e, t') \<in> set (matches True r (n, u))"
proof (induction r arbitrary: n u e t)
  case (Lit l)
  then show ?case using litMatch_local[of l x e t n u R] by simp
next
  case (Cls cl)
  then show ?case by (cases u) (auto split: if_splits)
next
  case (Rep cl lo hi g)
  then show ?case using repMatch_local[of cl x e t lo hi g n u R] by simp
next
  case Bol
  then show ?case by (auto split: if_splits)
next
  case Eol
  then show ?case by simp
next
  case (Seq r1 r2)
  from Seq.prems obtain m v where a: "(m, v) \<in> set (matches True r1 (n, u @ x # R))"
    and b: "(e, t) \<in> set (matches True r2 (m, v))" by auto
  from Seq.prems(1) have av: "avoids x r1" "avoids x r2" by simp_all
  from Seq.IH(1)[OF av(1) a] obtain v' where v: "v = v' @ x # R" "(m, v') \<in> set (matches True r1 (n, u))"
    by blast
  from Seq.IH(2)[OF av(2) b[unfolded v(1)]] obtain t' where "t = t' @ x # R" "(e, t') \<in> set (matches True r2 (m, v'))"
    by blast
  with v(2) show ?case by auto
next
  case (Alt r1 r2)
  then show ?case by fastforce
qed

text \<open>A greedy quantifier first takes all the characters of its class.\<close>

lemma repMatch_greedy_head:
  "\<forall>c\<in>set w. classMatch ci cl c \<Longrightarrow> r = [] \<or> \<not> classMatch ci cl (hd r) \<Longrightarrow> lo \<le> length w \<Longrightarrow>
     \<exists>tl. repMatch ci cl lo None True (n, w @ r) = (n + length w, r) # tl"
proof (induction w arbitrary: lo n)
  case Nil
  then show ?case by (cases r) (auto simp: Let_def)
next
  case (Cons a w)
  from Cons.prems have "lo - 1 \<le> length w" by simp
  from Cons.IH[OF _ Cons.prems(2) this, of "Suc n"] Cons.prems(1)
  obtain tl where "repMatch ci cl (lo - 1) None True (Suc n, w @ r) = (Suc n + length w, r) # tl"
    by auto
  with Cons.prems(1) show ?case by (simp add: Let_def)
qed

text \<open>A lazy quantifier over any character tries the positions from left to right.\<close>

lemma concat_lazy_skip:
  assumes "\<And>j. j < length w \<Longrightarrow> F (n + j, drop j w @ r) = []"
  shows "concat (map F (repMatch ci (OneOf [Space, NonSpace]) 0 None False (n, w @ r)))
       = concat (map F (repMatch ci (OneOf [Space, NonSpace]) 0 None False (n + length w, r)))"
  using assms
proof (induction w arbitrary: n)
  case Nil
  then show ?case by simp
next
  case (Cons a w)
  have 0: "F (n, (a # w) @ r) = []" using Cons.prems[of 0] by simp
  have "\<And>j. j < length w \<Longrightarrow> F (Suc n + j, drop j w @ r) = []"
    using Cons.prems[of "Suc j" for j] by simp
  from Cons.IH[OF this] 0 atomMatch_NonSpace[of ci a] show ?case by (auto simp add: Let_def)
qed

lemma repMatch_lazy_head:
  "\<exists>tl. repMatch ci cl 0 None False (n, s) = (n, s) # tl"
  by (cases s) (auto simp: Let_def)

subsection \<open>The pattern of the blocks on a page of texts and blocks\<close>

text \<open>The part of \<open>jsonLdPattern\<close> before its capture group.\<close>

abbreviation ldOpen :: regex where
  "ldOpen \<equiv> seqs [Lit ''<script'', spaces1, Lit ''type='', Cls quote, Lit ''application/ld+json'', Cls quote,
            star (NoneOf [Chr (CHR ''>'')]), Lit ''>'']"

lemma seq_head:
  "matches ci r1 st = s1 # t1 \<Longrightarrow> matches ci r2 s1 = y # t2 \<Longrightarrow> \<exists>tl. matches ci (Seq r1 r2) st = y # tl"
  by simp

lemma toLowerCase_append: "toLowerCase (a @ b) = toLowerCase a @ toLowerCase b"
  by (simp add: toLowerCase_def)

lemma toLowerCase_drop: "toLowerCase (drop j s) = drop j (toLowerCase s)"
  by (simp add: toLowerCase_def drop_map)

lemma word_head: "toLowerCase w = a # l \<Longrightarrow> \<exists>c cs. w = c # cs \<and> lowerChar c = a"
  by (cases w) (auto simp: toLowerCase_def)

lemma lowerChar_space: "isSpace (of_char c) \<Longrightarrow> lowerChar c = c"
  using space_no_letter[of "of_char c"] by (simp add: lowerChar_def)

lemma ldOpen_match:
  assumes "wellFormedBlock b"
  shows "\<exists>tl. matches True ldOpen (n, openTag b @ R) = (n + length (openTag b), R) # tl"
proof -
  let ?q1 = "openQuote1 b" and ?q2 = "openQuote2 b"
  let ?r8 = "''>'' @ R"
  let ?r7 = "openAttrs b @ ?r8"
  let ?r6 = "?q2 # ?r7"
  let ?r5 = "openMime b @ ?r6"
  let ?r4 = "?q1 # ?r5"
  let ?r3 = "openType b @ ?r4"
  let ?r2 = "openSpace b @ ?r3"
  let ?n2 = "n + 7" let ?n3 = "?n2 + length (openSpace b)" let ?n4 = "?n3 + 5"
  let ?n5 = "Suc ?n4" let ?n6 = "?n5 + 19" let ?n7 = "Suc ?n6" let ?n8 = "?n7 + length (openAttrs b)"
  from assms have wf:
    "toLowerCase (openScript b) = ''<script''" "openSpace b \<noteq> []"
    "\<forall>c\<in>set (openSpace b). isSpace (of_char c)"
    "toLowerCase (openType b) = ''type=''" "?q1 = dq \<or> ?q1 = sq"
    "toLowerCase (openMime b) = ''application/ld+json''" "?q2 = dq \<or> ?q2 = sq"
    "CHR ''>'' \<notin> set (openAttrs b)"
    by (simp_all add: wellFormedBlock_def list_all_iff)
  have len: "length (openScript b) = 7" "length (openType b) = 5" "length (openMime b) = 19"
    using arg_cong[OF wf(1), of length] arg_cong[OF wf(4), of length] arg_cong[OF wf(6), of length]
    by (simp_all add: toLowerCase_def)
  have 1: "matches True (Lit ''<script'') (n, openScript b @ ?r2) = [(?n2, ?r2)]"
    using litMatch_word[of "''<script''" "openScript b" n ?r2] wf(1) by (simp add: isUpper_def)
  obtain c cs where t: "openType b = c # cs" "lowerChar c = CHR ''t''"
    using word_head[OF wf(4)] by blast
  have "\<not> isSpace (of_char c)"
    using t(2) lowerChar_space[of c] by (auto simp: isSpace_def)
  then have "\<not> classMatch True (OneOf [Space]) (hd ?r3)" using t(1) by (simp add: atomMatch_Space)
  with repMatch_greedy_head[of "openSpace b" True "OneOf [Space]" ?r3 1 ?n2] wf(2,3)
  obtain tl2 where 2: "matches True spaces1 (?n2, ?r2) = (?n3, ?r3) # tl2"
    by (cases "openSpace b") (auto simp: atomMatch_Space)
  have 3: "matches True (Lit ''type='') (?n3, ?r3) = [(?n4, ?r4)]"
    using litMatch_word[of "''type=''" "openType b" ?n3 ?r4] wf(4) by (simp add: isUpper_def)
  have 4: "matches True (Cls quote) (?n4, ?r4) = [(?n5, ?r5)]"
    using wf(5) by (auto simp: atomMatch_marks)
  have 5: "matches True (Lit ''application/ld+json'') (?n5, ?r5) = [(?n6, ?r6)]"
    using litMatch_word[of "''application/ld+json''" "openMime b" ?n5 ?r6] wf(6) by (simp add: isUpper_def)
  have 6: "matches True (Cls quote) (?n6, ?r6) = [(?n7, ?r7)]"
    using wf(7) by (auto simp: atomMatch_marks)
  from repMatch_greedy_head[of "openAttrs b" True "NoneOf [Chr (CHR ''>'')]" ?r8 0 ?n7] wf(8)
  obtain tl7 where 7: "matches True (star (NoneOf [Chr (CHR ''>'')])) (?n7, ?r7) = (?n8, ?r8) # tl7"
    by (auto simp: atomMatch_marks)
  have 8: "matches True (Lit ''>'') (?n8, ?r8) = [(Suc ?n8, R)]"
    using litMatch_word[of "''>''" "''>''" ?n8 R] by (simp add: isUpper_def toLowerCase_def lowerChar_def)
  note s = seq_head
  from s[OF 7 8] obtain l7 where "matches True (Seq (star (NoneOf [Chr (CHR ''>'')])) (Lit ''>'')) (?n7, ?r7) = (Suc ?n8, R) # l7" by blast
  from s[OF 6 this] obtain l6 where "matches True (Seq (Cls quote) (Seq (star (NoneOf [Chr (CHR ''>'')])) (Lit ''>''))) (?n6, ?r6) = (Suc ?n8, R) # l6" by blast
  from s[OF 5 this] obtain l5 where "matches True (Seq (Lit ''application/ld+json'') (Seq (Cls quote) (Seq (star (NoneOf [Chr (CHR ''>'')])) (Lit ''>'')))) (?n5, ?r5) = (Suc ?n8, R) # l5" by blast
  from s[OF 4 this] obtain l4 where "matches True (Seq (Cls quote) (Seq (Lit ''application/ld+json'') (Seq (Cls quote) (Seq (star (NoneOf [Chr (CHR ''>'')])) (Lit ''>''))))) (?n4, ?r4) = (Suc ?n8, R) # l4" by blast
  from s[OF 3 this] obtain l3 where "matches True (Seq (Lit ''type='') (Seq (Cls quote) (Seq (Lit ''application/ld+json'') (Seq (Cls quote) (Seq (star (NoneOf [Chr (CHR ''>'')])) (Lit ''>'')))))) (?n3, ?r3) = (Suc ?n8, R) # l3" by blast
  from s[OF 2 this] obtain l2 where "matches True (Seq spaces1 (Seq (Lit ''type='') (Seq (Cls quote) (Seq (Lit ''application/ld+json'') (Seq (Cls quote) (Seq (star (NoneOf [Chr (CHR ''>'')])) (Lit ''>''))))))) (?n2, ?r2) = (Suc ?n8, R) # l2" by blast
  from s[OF 1 this] obtain l1 where m: "matches True ldOpen (n, openScript b @ ?r2) = (Suc ?n8, R) # l1" by auto
  have "Suc ?n8 = n + length (openTag b)" by (simp add: openTag_def len)
  moreover have "openScript b @ ?r2 = openTag b @ R" by (simp add: openTag_def)
  ultimately show ?thesis using m by metis
qed

lemma startsWith_before: "startsWith (u @ x # R) l \<Longrightarrow> x \<notin> set l \<Longrightarrow> startsWith u l"
proof (induction u l rule: startsWith.induct)
  case (1 s)
  then show ?case by simp
next
  case (2 b bs)
  then show ?case by simp
next
  case (3 a as b bs)
  then show ?case by simp
qed

lemma strIncludes_drop: "startsWith (drop j s) l \<Longrightarrow> strIncludes s l"
proof (induction s arbitrary: j)
  case Nil
  then show ?case by simp
next
  case (Cons a s)
  then show ?case by (cases j) auto
qed

lemma strIncludes_Cons: "strIncludes s l \<Longrightarrow> strIncludes (a # s) l"
  by simp

text \<open>An occurrence of a word that starts in \<open>u\<close> lies in \<open>u\<close> when the text after \<open>u\<close>
  starts with a character that the word has at its head only.\<close>

lemma no_straddle:
  assumes "startsWith (toLowerCase (u @ v)) (a # l)" "u \<noteq> []" "v = [] \<or> lowerChar (hd v) \<notin> set l"
  shows "startsWith (toLowerCase u) (a # l)"
proof -
  from assms(2) obtain c u' where u: "u = c # u'" by (cases u) auto
  from assms(1) u have h: "lowerChar c = a" "startsWith (toLowerCase u' @ toLowerCase v) l"
    by (simp_all add: toLowerCase_def)
  have "startsWith (toLowerCase u') l"
  proof (cases v)
    case Nil
    with h(2) show ?thesis by (simp add: toLowerCase_def)
  next
    case (Cons x R)
    with assms(3) have "lowerChar x \<notin> set l" by simp
    with h(2) Cons startsWith_before[of "toLowerCase u'" "lowerChar x" "toLowerCase R" l]
    show ?thesis by (simp add: toLowerCase_def)
  qed
  with h(1) u show ?thesis by (simp add: toLowerCase_def)
qed

text \<open>The capture group and the closing tag: the body ends at the first closing tag.\<close>

lemma ldBody_match:
  assumes "\<not> strIncludes (toLowerCase body) ''</script>''" "toLowerCase end = ''</script>''"
    "s1 = body @ end @ R"
  shows "\<exists>tl. concat (map (\<lambda>(n2, s2). map (\<lambda>(e, s3). (e, take (n2 - m) s1))
                   (matches True (Lit ''</script>'') (n2, s2)))
                (matches True (lazyStar (OneOf [Space, NonSpace])) (m, s1)))
           = (m + length body + 9, body) # tl"
proof -
  let ?F = "\<lambda>(n2, s2). map (\<lambda>(e, s3). (e, take (n2 - m) s1)) (matches True (Lit ''</script>'') (n2, s2))"
  obtain c cs where e: "end = c # cs" "lowerChar c = CHR ''<''"
    using word_head[OF assms(2)] by blast
  have skip: "?F (m + j, drop j body @ end @ R) = []" if j: "j < length body" for j
  proof -
    have "\<not> startsWith (toLowerCase (drop j body @ end @ R)) ''</script>''"
    proof
      assume a: "startsWith (toLowerCase (drop j body @ end @ R)) ''</script>''"
      have "startsWith (toLowerCase (drop j body)) ''</script>''"
        by (rule no_straddle[OF a]) (use j e in auto)
      then have "strIncludes (toLowerCase body) ''</script>''"
        using strIncludes_drop[of j "toLowerCase body"] by (simp add: toLowerCase_drop)
      with assms(1) show False by simp
    qed
    then show ?thesis using litMatch_lower[of "''</script>''" "m + j" "drop j body @ end @ R"]
      by (simp add: isUpper_def)
  qed
  have 1: "concat (map ?F (repMatch True (OneOf [Space, NonSpace]) 0 None False (m, body @ end @ R)))
      = concat (map ?F (repMatch True (OneOf [Space, NonSpace]) 0 None False (m + length body, end @ R)))"
    by (rule concat_lazy_skip) (use skip in simp)
  obtain tl where 2: "repMatch True (OneOf [Space, NonSpace]) 0 None False (m + length body, end @ R)
      = (m + length body, end @ R) # tl"
    using repMatch_lazy_head by blast
  have 3: "matches True (Lit ''</script>'') (m + length body, end @ R) = [(m + length body + 9, R)]"
    using litMatch_word[of "''</script>''" "end" "m + length body" R] assms(2) by (simp add: isUpper_def)
  from 1 2 3 assms(3) show ?thesis by simp
qed

lemma matchAt_block:
  assumes "wellFormedBlock b"
  shows "\<exists>tl. matchAt True jsonLdPattern (n, blockText b @ R) = (n + length (blockText b), blockBody b) # tl"
proof -
  let ?s1 = "blockBody b @ blockEnd b @ R"
  let ?n1 = "n + length (openTag b)"
  from ldOpen_match[OF assms, of n ?s1] obtain tl1 where
    1: "matches True ldOpen (n, openTag b @ ?s1) = (?n1, ?s1) # tl1" by blast
  from assms have wf: "\<not> strIncludes (toLowerCase (blockBody b)) ''</script>''"
    "toLowerCase (blockEnd b) = ''</script>''" by (simp_all add: wellFormedBlock_def)
  from ldBody_match[OF wf refl, where R = R and m = ?n1] obtain tl2 where
    2: "concat (map (\<lambda>(n2, s2). map (\<lambda>(e, s3). (e, take (n2 - ?n1) ?s1))
                   (matches True (Lit ''</script>'') (n2, s2)))
                (matches True (lazyStar (OneOf [Space, NonSpace])) (?n1, ?s1)))
           = (?n1 + length (blockBody b) + 9, blockBody b) # tl2" by blast
  have len: "length (blockEnd b) = 9"
    using arg_cong[OF wf(2), of length] by (simp add: toLowerCase_def)
  have "matchAt True jsonLdPattern (n, openTag b @ ?s1)
      = ((?n1 + length (blockBody b) + 9, blockBody b) # tl2) @
        concat (map (\<lambda>(n1, s1). concat (map (\<lambda>(n2, s2). map (\<lambda>(e, s3). (e, take (n2 - n1) s1))
                   (matches True (Lit ''</script>'') (n2, s2)))
                (matches True (lazyStar (OneOf [Space, NonSpace])) (n1, s1)))) tl1)"
    unfolding jsonLdPattern_def matchAt.simps 1 using 2 by simp
  then show ?thesis by (simp add: blockText_def len)
qed

lemma seq_mono:
  "matches ci (Seq r1 r2) st \<noteq> [] \<Longrightarrow> (\<And>st'. matches ci r2 st' \<noteq> [] \<Longrightarrow> matches ci r2' st' \<noteq> []) \<Longrightarrow>
     matches ci (Seq r1 r2') st \<noteq> []"
  by auto

lemma seq_drop: "matches ci (Seq r1 r2) st \<noteq> [] \<Longrightarrow> matches ci r1 st \<noteq> []"
  by auto

lemma matches_local_nonempty:
  assumes "avoids x r" "matches True r (n, u @ x # R) \<noteq> []"
  shows "matches True r (n, u) \<noteq> []"
proof -
  from assms(2) obtain e t where "(e, t) \<in> set (matches True r (n, u @ x # R))"
    by (metis list.set_intros(1) neq_Nil_conv surj_pair)
  from matches_local[OF assms(1) this] show ?thesis by auto
qed

text \<open>A pattern that holds the word \<open>l\<close> in sequence matches only where \<open>l\<close> occurs.\<close>

fun mentions :: "string \<Rightarrow> regex \<Rightarrow> bool" where
  "mentions l (Lit l') = (l = l' \<and> (\<forall>a\<in>set l. \<not> isUpper (of_char a)))"
| "mentions l (Seq r1 r2) = (mentions l r1 \<or> mentions l r2)"
| "mentions l r = False"

lemma strIncludes_suffix: "strIncludes (drop j s) l \<Longrightarrow> strIncludes s l"
proof (induction s arbitrary: j)
  case Nil
  then show ?case by simp
next
  case (Cons a s)
  then show ?case by (cases j) auto
qed

lemma startsWith_strIncludes: "startsWith s l \<Longrightarrow> strIncludes s l"
  by (cases s) auto

lemma matches_mentions:
  "mentions l r \<Longrightarrow> matches True r (n, s) \<noteq> [] \<Longrightarrow> strIncludes (toLowerCase s) l"
proof (induction r arbitrary: n s)
  case (Lit l')
  then show ?case using litMatch_lower[of l n s] startsWith_strIncludes[of "toLowerCase s" l]
    by (auto split: if_splits)
next
  case (Seq r1 r2)
  from Seq.prems(2) obtain m v where a: "(m, v) \<in> set (matches True r1 (n, s))"
    and b: "matches True r2 (m, v) \<noteq> []" by auto
  from Seq.prems(1) consider "mentions l r1" | "mentions l r2" by auto
  then show ?case
  proof cases
    case 1
    from a have "matches True r1 (n, s) \<noteq> []" by auto
    from Seq.IH(1)[OF 1 this] show ?thesis .
  next
    case 2
    from Seq.IH(2)[OF 2 b] have "strIncludes (toLowerCase v) l" .
    with matches_suffix[OF a] show ?thesis
      using strIncludes_suffix[of "m - n" "toLowerCase s" l] by (simp add: toLowerCase_drop)
  qed
qed simp_all

lemma avoids_lt:
  "avoids (CHR ''<'') (Seq (Lit ''script'') (Seq spaces1 (Seq (Lit ''type='') (Seq (Cls quote) (Lit ''application/ld+json'')))))"
  by (simp add: atomMatch_def upperCode_def lowerCode_def isUpper_def isLower_def isSpace_def)

text \<open>No opening tag of a block starts in a text that does not hold the media type.\<close>

lemma ldOpen_text:
  assumes "u \<noteq> []" "\<not> strIncludes (toLowerCase u) ''application/ld+json''" "R = [] \<or> hd R = CHR ''<''"
  shows "matches True ldOpen (n, u @ R) = []"
proof (rule ccontr)
  let ?X = "Seq (Lit ''script'') (Seq spaces1 (Seq (Lit ''type='') (Seq (Cls quote) (Lit ''application/ld+json''))))"
  let ?T = "Seq (Lit ''script'') (Seq spaces1 (Seq (Lit ''type='') (Seq (Cls quote)
                (Seq (Lit ''application/ld+json'') (Seq (Cls quote) (Seq (star (NoneOf [Chr (CHR ''>'')])) (Lit ''>'')))))))"
  assume m: "matches True ldOpen (n, u @ R) \<noteq> []"
  from assms(1) obtain c u' where u: "u = c # u'" by (cases u) auto
  have split: "matches True ldOpen (n, c # u' @ R)
      = (if atomMatch True (Chr (CHR ''<'')) c then matches True ?T (Suc n, u' @ R) else [])"
    by simp
  from m u split have "matches True ?T (Suc n, u' @ R) \<noteq> []"
    by (simp del: matches.simps split: if_splits)
  then have x: "matches True ?X (Suc n, u' @ R) \<noteq> []"
    by (elim seq_mono seq_drop)
  have "matches True ?X (Suc n, u') \<noteq> []"
  proof (cases R)
    case Nil
    with x show ?thesis by simp
  next
    case (Cons a R')
    with assms(3) have "R = CHR ''<'' # R'" by simp
    with matches_local_nonempty[OF avoids_lt, of "Suc n" u' R'] x show ?thesis by simp
  qed
  then have "strIncludes (toLowerCase u') ''application/ld+json''"
    by (rule matches_mentions[rotated]) (simp add: isUpper_def)
  with u have "strIncludes (toLowerCase u) ''application/ld+json''" by (simp add: toLowerCase_def)
  with assms(2) show False by simp
qed

lemma matchAt_no_open: "matches ci pre st = [] \<Longrightarrow> matchAt ci (Group pre g post) st = []"
  by simp

lemma search_head: "matchAt ci p (n, s) = r # rs \<Longrightarrow> search ci p (n, s) = Some r"
  by (cases s) (simp_all del: matchAt.simps)

lemma search_skip: "matchAt ci p (n, c # cs) = [] \<Longrightarrow> search ci p (n, c # cs) = search ci p (Suc n, cs)"
  by (simp del: matchAt.simps)

lemma plainText_tail: "plainText (c # t) \<Longrightarrow> plainText t"
  by (simp add: plainText_def toLowerCase_def)

lemma blockText_head:
  assumes "wellFormedBlock b"
  shows "\<exists>cs. blockText b = CHR ''<'' # cs"
proof -
  from assms have "toLowerCase (openScript b) = ''<script''" by (simp add: wellFormedBlock_def)
  from word_head[OF this] obtain c cs where "openScript b = c # cs" "lowerChar c = CHR ''<''" by blast
  moreover have "(lowerChar c = CHR ''<'') = (c = CHR ''<'')"
    by (rule lowerChar_no_letter) (simp_all add: isUpper_def isLower_def)
  ultimately show ?thesis by (simp add: blockText_def openTag_def)
qed

lemma search_text_block:
  assumes "wellFormedBlock b"
  shows "plainText t \<Longrightarrow>
     search True jsonLdPattern (n, t @ blockText b @ R) = Some (n + length t + length (blockText b), blockBody b)"
proof (induction t arbitrary: n)
  case Nil
  from matchAt_block[OF assms, of n R] obtain tl where
    "matchAt True jsonLdPattern (n, blockText b @ R) = (n + length (blockText b), blockBody b) # tl" by blast
  from search_head[OF this] show ?case by simp
next
  case (Cons c t)
  from blockText_head[OF assms] have hd: "hd (blockText b @ R) = CHR ''<''" by auto
  from Cons.prems have "\<not> strIncludes (toLowerCase (c # t)) ''application/ld+json''"
    by (simp add: plainText_def)
  from ldOpen_text[OF _ this, of "blockText b @ R" n] hd
  have "matches True ldOpen (n, (c # t) @ blockText b @ R) = []" by simp
  then have "matchAt True jsonLdPattern (n, c # (t @ blockText b @ R)) = []"
    unfolding jsonLdPattern_def by (simp del: matches.simps seqs.simps)
  from search_skip[OF this] Cons.IH[OF plainText_tail[OF Cons.prems], of "Suc n"]
  show ?case by simp
qed

lemma search_text_end:
  "plainText t \<Longrightarrow> search True jsonLdPattern (n, t) = None"
proof (induction t arbitrary: n)
  case Nil
  then show ?case by (simp add: jsonLdPattern_def)
next
  case (Cons c t)
  from Cons.prems have "\<not> strIncludes (toLowerCase (c # t)) ''application/ld+json''"
    by (simp add: plainText_def)
  from ldOpen_text[OF _ this, of "[]" n]
  have "matches True ldOpen (n, c # t) = []" by simp
  then have "matchAt True jsonLdPattern (n, c # t) = []"
    unfolding jsonLdPattern_def by (simp del: matches.simps seqs.simps)
  from search_skip[OF this] Cons.IH[OF plainText_tail[OF Cons.prems], of "Suc n"]
  show ?case by simp
qed

text \<open>The loop over a page of texts and blocks runs the body on the bodies of the blocks.\<close>

lemma execLoop_page:
  "wellFormedPage segs final \<Longrightarrow> drop i s = pageText segs final \<Longrightarrow> i \<le> length s \<Longrightarrow>
     execLoop True jsonLdPattern s f i acc
       = Some (foldl (\<lambda>a m. f m a) acc (map (\<lambda>(t, b). blockBody b) segs))"
proof (induction segs arbitrary: i acc)
  case Nil
  then have "search True jsonLdPattern (i, drop i s) = None"
    by (simp add: wellFormedPage_def search_text_end)
  then show ?case by simp
next
  case (Cons seg segs)
  obtain t b where seg: "seg = (t, b)" by (cases seg)
  from Cons.prems(1) seg have wf: "plainText t" "wellFormedBlock b" "wellFormedPage segs final"
    by (simp_all add: wellFormedPage_def)
  let ?e = "i + length t + length (blockText b)"
  from Cons.prems(2) seg have d: "drop i s = t @ blockText b @ pageText segs final" by simp
  from search_text_block[OF wf(2,1), of i "pageText segs final"] d
  have s: "search True jsonLdPattern (i, drop i s) = Some (?e, blockBody b)" by simp
  from blockText_head[OF wf(2)] have pos: "i < ?e" by auto
  have "drop ?e s = drop (length t + length (blockText b)) (drop i s)"
    by (simp add: add.commute add.left_commute)
  with d have d': "drop ?e s = pageText segs final" by simp
  have "length (drop i s) = length s - i" by simp
  with d Cons.prems(3) have le: "?e \<le> length s"
    by (metis add.assoc add_diff_inverse_nat le_add1 length_append nat_add_left_cancel_le not_less)
  from execLoop_Some[OF s pos, of f acc] Cons.IH[OF wf(3) d' le, of "f (blockBody b) acc"] seg
  show ?case by simp
qed

subsection \<open>The types the blocks declare\<close>

lemma schemaStep_blockType:
  "blockType parse m \<noteq> OtherType \<Longrightarrow>
     schemaStep parse m ts =
       (case blockType parse m of HasType t \<Rightarrow> if t \<in> set ts then ts else ts @ [t] | _ \<Rightarrow> ts)"
proof (cases "parse (trim m)")
  case None
  then show ?thesis by (simp add: schemaStep_def tryBlock_def blockType_def)
next
  case (Some schema)
  assume k: "blockType parse m \<noteq> OtherType"
  show ?thesis
  proof (cases schema)
    case (JObject kv)
    show ?thesis
    proof (cases "map_of kv ''@type''")
      case None
      with Some JObject show ?thesis by (simp add: schemaStep_def tryBlock_def blockType_def)
    next
      case t: (Some t)
      show ?thesis
      proof (cases t)
        case (JArray xs)
        with k Some JObject t show ?thesis
          by (cases xs) (auto simp: schemaStep_def tryBlock_def blockType_def typesIncludes_def Let_def split: if_splits)
      next
        case j: (JObject kv')
        with k Some JObject t show ?thesis by (simp add: blockType_def)
      qed (use Some JObject t in \<open>auto simp: schemaStep_def tryBlock_def blockType_def typesIncludes_def Let_def\<close>)
    qed
  qed (use Some in \<open>auto simp: schemaStep_def tryBlock_def blockType_def\<close>)
qed

lemma foldl_schemaStep:
  "list_all (\<lambda>m. blockType parse m \<noteq> OtherType) bodies \<Longrightarrow>
     foldl (\<lambda>types m. schemaStep parse m types) ts bodies
       = foldl (\<lambda>l x. if x \<in> set l then l else l @ [x]) ts
           (concat (map (\<lambda>m. case blockType parse m of HasType ty \<Rightarrow> [ty] | _ \<Rightarrow> []) bodies))"
proof (induction bodies arbitrary: ts)
  case Nil
  then show ?case by simp
next
  case (Cons m bodies)
  then have k: "blockType parse m \<noteq> OtherType" and r: "list_all (\<lambda>m. blockType parse m \<noteq> OtherType) bodies"
    by simp_all
  show ?case
    by (cases "blockType parse m") (use k in \<open>simp_all add: schemaStep_blockType[OF k] Cons.IH[OF r]\<close>)
qed

lemma foldl_insert_distinct:
  "distinct l \<Longrightarrow> distinct (foldl (\<lambda>l x. if x \<in> set l then l else l @ [x]) l xs)"
  by (induction xs arbitrary: l) simp_all

lemma foldl_insert_set:
  "set (foldl (\<lambda>l x. if x \<in> set l then l else l @ [x]) l xs) = set l \<union> set xs"
  by (induction xs arbitrary: l) auto

lemma firstOccurrences_distinct: "distinct (firstOccurrences xs)"
  by (simp add: firstOccurrences_def foldl_insert_distinct)

lemma firstOccurrences_set: "set (firstOccurrences xs) = set xs"
  by (simp add: firstOccurrences_def foldl_insert_set)

lemma schemaStep_blockType':
  "schemaStep parse m ts = ts \<or> (\<exists>t. schemaStep parse m ts = ts @ [t] \<and> \<not> typesIncludes ts t)"
  by (auto simp: schemaStep_def tryBlock_def Let_def split: option.splits sum.splits)

lemma schemaStep_distinct:
  "distinct (filter isPrimitive ts) \<Longrightarrow> distinct (filter isPrimitive (schemaStep parse m ts))"
  using schemaStep_blockType'[of parse m ts] by (auto simp: typesIncludes_def)

lemma foldl_schemaStep_distinct:
  "distinct (filter isPrimitive ts) \<Longrightarrow>
     distinct (filter isPrimitive (foldl (\<lambda>types m. schemaStep parse m types) ts bodies))"
  by (induction bodies arbitrary: ts) (simp_all add: schemaStep_distinct)

lemma extractJSONLDSchema_page:
  assumes "wellFormedPage segs final" "list_all (\<lambda>(t, b). blockType parse (blockBody b) \<noteq> OtherType) segs"
  shows "extractJSONLDSchema parse (pageText segs final) =
     Some \<lparr>schemaFound = (firstOccurrences (declaredTypes parse segs) \<noteq> []),
           types = firstOccurrences (declaredTypes parse segs)\<rparr>"
proof -
  let ?bodies = "map (\<lambda>(t, b). blockBody b) segs"
  from assms(2) have k: "list_all (\<lambda>m. blockType parse m \<noteq> OtherType) ?bodies"
    by (simp add: list_all_iff case_prod_beta)
  have d: "concat (map (\<lambda>m. case blockType parse m of HasType ty \<Rightarrow> [ty] | _ \<Rightarrow> []) ?bodies)
      = declaredTypes parse segs"
    by (simp add: declaredTypes_def comp_def split_def)
  from execLoop_page[OF assms(1), of 0 "pageText segs final" "schemaStep parse" "[]"]
  have "execLoop True jsonLdPattern (pageText segs final) (schemaStep parse) 0 []
      = Some (foldl (\<lambda>types m. schemaStep parse m types) [] ?bodies)" by simp
  with foldl_schemaStep[OF k, of "[]"] d show ?thesis
    by (simp add: extractJSONLDSchema_def firstOccurrences_def)
qed

text \<open>
  C3, as the code has it. For every HTML input and whatever \<^verbatim>\<open>JSON.parse\<close> does, the
  detection returns, \<^verbatim>\<open>found\<close> is true if and only if the list of types is not empty, and
  no string, number, boolean or \<^verbatim>\<open>null\<close> occurs twice in the list. A body that fails to
  parse raises a \<^verbatim>\<open>SyntaxError\<close> inside the \<^verbatim>\<open>try\<close> block; it is caught and leaves the list
  as it is. On a page made of texts that do not hold the media type and of blocks whose
  opening tag is \<^verbatim>\<open><script\<close>, white space, \<^verbatim>\<open>type=\<close> and the quoted media type
  \<^verbatim>\<open>application/ld+json\<close>, followed by any attributes, where no block declares an empty
  array or an object as its type, the list is the deduplicated, insertion-ordered list
  of the types the blocks declare: for each block, in order, whose body parses to an
  object with a truthy \<^verbatim>\<open>@type\<close>, that \<^verbatim>\<open>@type\<close>, or its first element when it is an array.
  A block whose body does not parse, or parses to something without a truthy \<^verbatim>\<open>@type\<close>,
  contributes nothing.
\<close>

theorem extractJSONLDSchema_blocks:
  "(\<exists>ts. extractJSONLDSchema parse html = Some \<lparr>schemaFound = (ts \<noteq> []), types = ts\<rparr> \<and>
      distinct (filter isPrimitive ts)) \<and>
   (parse (trim m) = None \<longrightarrow> tryBlock parse m ts0 = Inl SyntaxError \<and> schemaStep parse m ts0 = ts0) \<and>
   (wellFormedPage segs final \<and> list_all (\<lambda>(t, b). blockType parse (blockBody b) \<noteq> OtherType) segs \<longrightarrow>
      (let ts = firstOccurrences (declaredTypes parse segs)
       in extractJSONLDSchema parse (pageText segs final) = Some \<lparr>schemaFound = (ts \<noteq> []), types = ts\<rparr> \<and>
          distinct ts \<and> set ts = set (declaredTypes parse segs)))"
proof -
  obtain bodies where b: "allCaptures True jsonLdPattern html 0 = Some bodies"
    using allCaptures_total[of jsonLdPattern True html 0] by auto
  let ?ts = "foldl (\<lambda>types m. schemaStep parse m types) [] bodies"
  have e: "extractJSONLDSchema parse html = Some \<lparr>schemaFound = (?ts \<noteq> []), types = ?ts\<rparr>"
    using b execLoop_fold[of True jsonLdPattern html "schemaStep parse" 0 "[]"]
    by (simp add: extractJSONLDSchema_def)
  have d: "distinct (filter isPrimitive ?ts)"
    by (rule foldl_schemaStep_distinct) simp
  have p: "parse (trim m) = None \<longrightarrow> tryBlock parse m ts0 = Inl SyntaxError \<and> schemaStep parse m ts0 = ts0"
    by (simp add: schemaStep_def tryBlock_def)
  have pg: "wellFormedPage segs final \<and> list_all (\<lambda>(t, b). blockType parse (blockBody b) \<noteq> OtherType) segs \<longrightarrow>
      (let ts = firstOccurrences (declaredTypes parse segs)
       in extractJSONLDSchema parse (pageText segs final) = Some \<lparr>schemaFound = (ts \<noteq> []), types = ts\<rparr> \<and>
          distinct ts \<and> set ts = set (declaredTypes parse segs))"
    using extractJSONLDSchema_page[of segs final parse]
      firstOccurrences_distinct[of "declaredTypes parse segs"] firstOccurrences_set[of "declaredTypes parse segs"]
    by (simp add: Let_def)
  from e d have "\<exists>ts. extractJSONLDSchema parse html = Some \<lparr>schemaFound = (ts \<noteq> []), types = ts\<rparr> \<and>
      distinct (filter isPrimitive ts)" by blast
  with p pg show ?thesis by (intro conjI)
qed

theorem extractJSONLDSchema_blocks_witness:
  \<open>pageText exampleSegs ''</body>'' =
     ''<p><script type="application/ld+json">{"@type":"Product"}</script><script src="a.js"></script><SCRIPT  TYPE='Application/LD+JSON" id=x> {"@type":["Article","NewsArticle"]} </Script><script type="application/ld+json">{"@type":"Prod</script><script>x</script><script type="application/ld+json">{"@type":"Product"}</script><b><script type="application/ld+json">{"@type":""}</script><script type="application/ld+json">null</script></body>'' \<and>
   wellFormedPage exampleSegs ''</body>'' \<and>
   list_all (\<lambda>(t, b). blockType exampleParse (blockBody b) \<noteq> OtherType) exampleSegs \<and>
   declaredTypes exampleParse exampleSegs = [JString ''Product'', JString ''Article'', JString ''Product''] \<and>
   extractJSONLDSchema exampleParse (pageText exampleSegs ''</body>'')
     = Some \<lparr>schemaFound = True, types = [JString ''Product'', JString ''Article'']\<rparr> \<and>
   exampleParse (trim ''{"@type":"Prod'') = None \<and>
   tryBlock exampleParse ''{"@type":"Prod'' [JString ''Product''] = Inl SyntaxError \<and>
   schemaStep exampleParse ''{"@type":"Prod'' [JString ''Product''] = [JString ''Product'']\<close>
proof -
  have t: \<open>pageText exampleSegs ''</body>'' =
     ''<p><script type="application/ld+json">{"@type":"Product"}</script><script src="a.js"></script><SCRIPT  TYPE='Application/LD+JSON" id=x> {"@type":["Article","NewsArticle"]} </Script><script type="application/ld+json">{"@type":"Prod</script><script>x</script><script type="application/ld+json">{"@type":"Product"}</script><b><script type="application/ld+json">{"@type":""}</script><script type="application/ld+json">null</script></body>''\<close>
    by code_simp
  have w: "wellFormedPage exampleSegs ''</body>''" by code_simp
  have k: "list_all (\<lambda>(t, b). blockType exampleParse (blockBody b) \<noteq> OtherType) exampleSegs" by code_simp
  have d: "declaredTypes exampleParse exampleSegs = [JString ''Product'', JString ''Article'', JString ''Product'']"
    by code_simp
  have f: "firstOccurrences [JString ''Product'', JString ''Article'', JString ''Product'']
      = [JString ''Product'', JString ''Article'']" by code_simp
  have p: \<open>exampleParse (trim ''{"@type":"Prod'') = None\<close> by code_simp
  note th = extractJSONLDSchema_blocks[of exampleParse "[]" \<open>''{"@type":"Prod''\<close> "[JString ''Product'']"
      exampleSegs "''</body>''"]
  from th w k d f have 1: "extractJSONLDSchema exampleParse (pageText exampleSegs ''</body>'')
     = Some \<lparr>schemaFound = True, types = [JString ''Product'', JString ''Article'']\<rparr>"
    by (simp add: Let_def)
  from th p have 2: \<open>tryBlock exampleParse ''{"@type":"Prod'' [JString ''Product''] = Inl SyntaxError \<and>
   schemaStep exampleParse ''{"@type":"Prod'' [JString ''Product''] = [JString ''Product'']\<close>
    by blast
  from t w k d 1 p 2 show ?thesis by (intro conjI) simp_all
qed

text \<open>
  C3 as stated fails in three places. The block \<^verbatim>\<open>{"@type":""}\<close> parses, and its
  \<^verbatim>\<open>@type\<close> is not collected. Two blocks whose \<^verbatim>\<open>@type\<close> is the object \<^verbatim>\<open>{"@id":"x"}\<close>
  leave two equal entries in the list, since \<^verbatim>\<open>includes\<close> compares objects by identity.
  A block whose opening tag has \<^verbatim>\<open>id\<close> before \<^verbatim>\<open>type\<close> is not examined.
\<close>

theorem extractJSONLDSchema_counterexamples:
  \<open>exampleParse (trim ''{"@type":""}'') = Some (JObject [(''@type'', JString [])]) \<and>
   extractJSONLDSchema exampleParse ''<script type="application/ld+json">{"@type":""}</script>''
     = Some \<lparr>schemaFound = False, types = []\<rparr> \<and>
   extractJSONLDSchema exampleParse
     ''<script type="application/ld+json">{"@type":{"@id":"x"}}</script><script type="application/ld+json">{"@type":{"@id":"x"}}</script>''
     = Some \<lparr>schemaFound = True, types = [JObject [(''@id'', JString ''x'')], JObject [(''@id'', JString ''x'')]]\<rparr> \<and>
   exampleParse (trim ''{"@type":"Product"}'') = Some (JObject [(''@type'', JString ''Product'')]) \<and>
   extractJSONLDSchema exampleParse ''<script id="a" type="application/ld+json">{"@type":"Product"}</script>''
     = Some \<lparr>schemaFound = False, types = []\<rparr>\<close>
  by code_simp

text \<open>The empty array is outside the statement above: the test of \<^verbatim>\<open>schema['@type']\<close>
  lets it pass, and its first element is \<^verbatim>\<open>undefined\<close>.\<close>

lemma extractJSONLDSchema_empty_array:
  \<open>extractJSONLDSchema exampleParse ''<script type="application/ld+json">{"@type":[]}</script>''
     = Some \<lparr>schemaFound = True, types = [JUndefined]\<rparr>\<close>
  by code_simp

section \<open>Determinism (\<^verbatim>\<open>runDetectors\<close>, \<^verbatim>\<open>calculateSummary\<close>)\<close>


end
